theory Spec2Isabelle
  imports Main "HOL-Library.Sublist" "HOL-Library.AList"
begin

section \<open>Strings\<close>

text \<open>
  Strings are character lists. The program lower-cases with \<open>str.lower\<close> and trims with
  \<open>str.strip\<close>, both of the Python runtime and both defined on all of Unicode. They are
  parameters of the model, as \<open>html.unescape\<close> is: \<open>lower tx\<close> stands for \<open>str.lower\<close> and
  \<open>strip tx\<close> for \<open>str.strip\<close>, and every general statement holds for whatever functions
  they are.
\<close>

record text_ops =
  lower :: "string \<Rightarrow> string"
  strip :: "string \<Rightarrow> string"

text \<open>
  On ASCII text \<open>str.lower\<close> maps the letters A..Z to a..z and leaves every other character
  alone, and \<open>str.strip\<close> removes leading and trailing ASCII whitespace (the characters
  below code point 128 for which \<open>str.isspace\<close> holds). \<open>ascii_ops\<close> is used for the
  concrete runs only, whose strings are all ASCII.
\<close>

definition lower_char :: "char \<Rightarrow> char" where
  "lower_char c =
     (let n = (of_char c :: nat) in if 65 \<le> n \<and> n \<le> 90 then char_of (n + 32) else c)"

definition ascii_lower :: "string \<Rightarrow> string" where
  "ascii_lower s = map lower_char s"

definition is_space :: "char \<Rightarrow> bool" where
  "is_space c =
     (let n = (of_char c :: nat) in (9 \<le> n \<and> n \<le> 13) \<or> (28 \<le> n \<and> n \<le> 32))"

definition ascii_strip :: "string \<Rightarrow> string" where
  "ascii_strip s = rev (dropWhile is_space (rev (dropWhile is_space s)))"

definition ascii_ops :: text_ops where
  "ascii_ops = \<lparr> lower = ascii_lower, strip = ascii_strip \<rparr>"

text \<open>Python truthiness of a string, and of a value that is a string or \<open>None\<close>.\<close>

definition truthy :: "string \<Rightarrow> bool" where
  "truthy s = (s \<noteq> [])"

definition truthy_opt :: "string option \<Rightarrow> bool" where
  "truthy_opt v = (case v of None \<Rightarrow> False | Some s \<Rightarrow> truthy s)"

section \<open>Errors\<close>

text \<open>
  What a \<open>SpotifyException\<close> carries for the retry logic: \<open>e.headers\<close> is \<open>None\<close>
  (\<open>NoHeaders\<close>) or a mapping whose \<open>Retry-After\<close> entry is absent, a text that
  \<open>int()\<close> reads as the given integer, or a text that \<open>int()\<close> rejects.
\<close>

datatype retry_after = Absent | Seconds int | Unparsable

datatype headers = NoHeaders | Headers retry_after

datatype error =
    SpotifyException int headers
  | TransportError
  | ValueError
  | AttributeError
  | FileError
  | SystemExit int

section \<open>Library reader\<close>

datatype plist_val = PInt int | PBool bool | PStr string | POther

record raw_track =
  Track_ID :: "int option"
  Name :: "string option"
  Artist :: "string option"
  Year :: "plist_val option"

record raw_playlist =
  Playlist_Name :: "string option"
  Playlist_Items :: "int option list option"
  Playlist_Other :: bool

text \<open>
  The parsed property list. \<open>Tracks\<close> is the track table in iteration order, each key
  given as the integer that \<open>int()\<close> reads from the key text; \<open>Playlists\<close> is the
  playlist list, each item of a playlist given by its \<open>Track ID\<close> entry (\<open>None\<close> when
  the entry is missing). A missing section is the empty list, as \<open>pl.get\<close> defaults it.
  \<open>Playlist_Other\<close> tells whether a playlist dict has a key besides \<open>Name\<close> and
  \<open>Playlist Items\<close>: a dict without any key is falsy in \<open>if selected:\<close>.
\<close>

record plist =
  Tracks :: "(int \<times> raw_track) list"
  Playlists :: "raw_playlist list"

record track_record =
  name :: string
  artist :: string
  year :: "int option"

text \<open>\<open>id_to_track\<close>: a dict filled in table order; a repeated key keeps its first
  position and takes the later value.\<close>

definition id_to_track :: "(int \<times> raw_track) list \<Rightarrow> (int \<times> raw_track) list" where
  "id_to_track tracks_dict =
     foldl (\<lambda>m (k, t). AList.update (case Track_ID t of Some i \<Rightarrow> i | None \<Rightarrow> k) t m)
       [] tracks_dict"

definition get_str :: "string option \<Rightarrow> string" where
  "get_str v = (case v of None \<Rightarrow> [] | Some s \<Rightarrow> s)"

text \<open>\<open>html.unescape\<close> is a parameter of the reader: the entity table is the standard
  library's.\<close>

definition normalize_track :: "text_ops \<Rightarrow> (string \<Rightarrow> string) \<Rightarrow> raw_track \<Rightarrow> track_record" where
  "normalize_track tx unescape t =
     \<lparr> name = strip tx (unescape (get_str (Name t))),
       artist = strip tx (unescape (get_str (Artist t))),
       year = (case Year t of
                 Some (PInt y) \<Rightarrow> Some y
               | Some (PBool b) \<Rightarrow> Some (if b then 1 else 0)
               | _ \<Rightarrow> None) \<rparr>"

definition select_playlist :: "text_ops \<Rightarrow> raw_playlist list \<Rightarrow> string option \<Rightarrow> raw_playlist option" where
  "select_playlist tx playlists preferred_playlist =
     (case preferred_playlist of
        None \<Rightarrow> None
      | Some pp \<Rightarrow>
          if truthy pp
          then find (\<lambda>p. lower tx (strip tx (get_str (Playlist_Name p))) = lower tx (strip tx pp)) playlists
          else None)"

definition playlist_tracks ::
  "text_ops \<Rightarrow> (string \<Rightarrow> string) \<Rightarrow> (int \<times> raw_track) list \<Rightarrow> int option list \<Rightarrow> track_record list" where
  "playlist_tracks tx unescape m its =
     concat (map (\<lambda>tid. case tid of
                           None \<Rightarrow> []
                         | Some i \<Rightarrow>
                             if i \<noteq> 0
                             then (case map_of m i of
                                     None \<Rightarrow> []
                                   | Some t \<Rightarrow> [normalize_track tx unescape t])
                             else []) its)"

definition dict_truthy :: "raw_playlist \<Rightarrow> bool" where
  "dict_truthy p = (Playlist_Name p \<noteq> None \<or> Playlist_Items p \<noteq> None \<or> Playlist_Other p)"

definition resolve_items ::
  "text_ops \<Rightarrow> (string \<Rightarrow> string) \<Rightarrow> plist \<Rightarrow> string option \<Rightarrow> track_record list" where
  "resolve_items tx unescape pl preferred_playlist =
     (let m = id_to_track (Tracks pl);
          all_tracks = map (\<lambda>(k, t). normalize_track tx unescape t) m in
      case select_playlist tx (Playlists pl) preferred_playlist of
        Some selected \<Rightarrow>
          if dict_truthy selected
          then playlist_tracks tx unescape m
                 (case Playlist_Items selected of None \<Rightarrow> [] | Some its \<Rightarrow> its)
          else all_tracks
      | None \<Rightarrow> all_tracks)"

definition key_of :: "text_ops \<Rightarrow> track_record \<Rightarrow> string \<times> string" where
  "key_of tx it = (lower tx (name it), lower tx (artist it))"

fun dedupe :: "text_ops \<Rightarrow> track_record list \<Rightarrow> (string \<times> string) set \<Rightarrow> track_record list
    \<Rightarrow> track_record list" where
  "dedupe tx [] seen unique = unique"
| "dedupe tx (it # items) seen unique =
     (if truthy (name it) \<and> truthy (artist it) \<and> key_of tx it \<notin> seen
      then dedupe tx items (insert (key_of tx it) seen) (unique @ [it])
      else dedupe tx items seen unique)"

text \<open>\<open>fs\<close> is what opening the path and \<open>plistlib.load\<close> give: the parsed document or
  the exception raised.\<close>

definition load_apple_xml ::
  "text_ops \<Rightarrow> (string \<Rightarrow> error + plist) \<Rightarrow> (string \<Rightarrow> string) \<Rightarrow> string \<Rightarrow> string option
    \<Rightarrow> error + track_record list" where
  "load_apple_xml tx fs unescape xml_path preferred_playlist =
     (case fs xml_path of
        Inl e \<Rightarrow> Inl e
      | Inr pl \<Rightarrow> Inr (dedupe tx (resolve_items tx unescape pl preferred_playlist) {} []))"

section \<open>Remote service\<close>

text \<open>
  The spotipy client \<open>sp\<close> is a record of the operations the program calls, over a state
  \<open>'s\<close> of the service that the program never inspects. Each operation returns the value
  the call yields or the exception it raises, and the next state. \<open>sp_sleep\<close> is what
  \<open>time.sleep\<close> does to the service (its rate-limit window moves on).
\<close>

record search_item =
  sr_name :: string
  sr_artists :: "string list"
  sr_id :: string

record playlist_entry =
  pe_name :: "string option"
  pe_owner :: "string option"
  pe_id :: string

datatype track_obj = Track (uri: "string option")

datatype playlist_item = Item (track: "track_obj option")

record items_page =
  page_items :: "playlist_item list"
  page_next :: "string option"

record 's spotify =
  sp_current_user :: "'s \<Rightarrow> (error + string) \<times> 's"
  sp_user_playlist_create ::
    "string \<Rightarrow> string option \<Rightarrow> bool \<Rightarrow> string \<Rightarrow> 's \<Rightarrow> (error + string) \<times> 's"
  sp_search :: "string \<Rightarrow> nat \<Rightarrow> 's \<Rightarrow> (error + search_item list) \<times> 's"
  sp_playlist_add_items :: "string \<Rightarrow> string list \<Rightarrow> 's \<Rightarrow> (error + unit) \<times> 's"
  sp_current_user_playlists :: "nat \<Rightarrow> nat \<Rightarrow> 's \<Rightarrow> (error + playlist_entry list) \<times> 's"
  sp_playlist_items :: "string \<Rightarrow> nat \<Rightarrow> nat \<Rightarrow> 's \<Rightarrow> (error + items_page) \<times> 's"
  sp_playlist_remove_all_occurrences_of_items ::
    "string \<Rightarrow> string list \<Rightarrow> 's \<Rightarrow> (error + unit) \<times> 's"
  sp_sleep :: "int \<Rightarrow> 's \<Rightarrow> 's"

text \<open>What the run prints, and where; the texts are the source's, their arguments kept.\<close>

datatype message =
    MsgEnvMissing string
  | MsgNoTracks
  | MsgPlaylistNotFound string
  | MsgUsingExisting string
  | MsgClearing
  | MsgCreated string
  | MsgUsage
  | MsgFound string string
  | MsgNotFound string string
  | MsgDone nat "string option"
  | MsgLogged nat string

text \<open>
  Every remote call, sleep and output of a run is recorded, in order, when it is issued.
  \<open>Search q n\<close> is \<open>sp.search(q=q, type="track", limit=n)\<close>; \<open>PlaylistItems p n k\<close> is
  \<open>sp.playlist_items(p, fields="items(track(uri)),next", limit=n, offset=k)\<close>.
\<close>

datatype event =
    CurrentUser
  | UserPlaylistCreate string "string option" bool string
  | Search string nat
  | Sleep int
  | PlaylistAddItems string "string list"
  | CurrentUserPlaylists nat nat
  | PlaylistItems string nat nat
  | PlaylistRemoveAll string "string list"
  | Stdout message
  | Stderr message
  | WriteCsv string "track_record list"

fun is_write :: "event \<Rightarrow> bool" where
  "is_write (UserPlaylistCreate _ _ _ _) = True"
| "is_write (PlaylistAddItems _ _) = True"
| "is_write (PlaylistRemoveAll _ _) = True"
| "is_write _ = False"

record 's world =
  log :: "event list"
  remote :: 's

definition call ::
  "event \<Rightarrow> ('s \<Rightarrow> (error + 'a) \<times> 's) \<Rightarrow> 's world \<Rightarrow> (error + 'a) \<times> 's world" where
  "call ev oper w =
     (case oper (remote w) of (r, s') \<Rightarrow> (r, \<lparr> log = log w @ [ev], remote = s' \<rparr>))"

definition emit :: "event \<Rightarrow> 's world \<Rightarrow> 's world" where
  "emit ev w = w \<lparr> log := log w @ [ev] \<rparr>"

definition sleep :: "'s spotify \<Rightarrow> int \<Rightarrow> 's world \<Rightarrow> 's world" where
  "sleep sp t w = \<lparr> log = log w @ [Sleep t], remote = sp_sleep sp t (remote w) \<rparr>"

section \<open>Playlist creation\<close>

definition create_playlist ::
  "'s spotify \<Rightarrow> string option \<Rightarrow> bool \<Rightarrow> string \<Rightarrow> 's world \<Rightarrow> (error + string) \<times> 's world" where
  "create_playlist sp playlist_name public description w =
     (case call CurrentUser (sp_current_user sp) w of
        (Inl e, w1) \<Rightarrow> (Inl e, w1)
      | (Inr uid, w1) \<Rightarrow>
          call (UserPlaylistCreate uid playlist_name public description)
            (sp_user_playlist_create sp uid playlist_name public description) w1)"

section \<open>Search matcher\<close>

function str_nat :: "nat \<Rightarrow> string" where
  "str_nat n =
     (if n < 10 then [char_of (48 + n)] else str_nat (n div 10) @ [char_of (48 + n mod 10)])"
  by pat_completeness auto
termination
  by (relation "measure id") auto

declare str_nat.simps [simp del]

definition str_int :: "int \<Rightarrow> string" where
  "str_int i = (if i < 0 then CHR ''-'' # str_nat (nat (- i)) else str_nat (nat i))"

definition q_strict :: "string \<Rightarrow> string \<Rightarrow> string" where
  "q_strict nm ar = ''track:'' @ [CHR 0x22] @ nm @ [CHR 0x22] @ '' artist:'' @ [CHR 0x22] @ ar @ [CHR 0x22]"

definition q_year :: "string \<Rightarrow> string \<Rightarrow> int \<Rightarrow> string" where
  "q_year nm ar y = q_strict nm ar @ '' year:'' @ str_int y"

definition q_loose :: "string \<Rightarrow> string \<Rightarrow> string" where
  "q_loose nm ar = nm @ '' '' @ ar"

text \<open>\<open>if year:\<close> holds for an integer other than 0.\<close>

definition queries :: "string \<Rightarrow> string \<Rightarrow> int option \<Rightarrow> string list" where
  "queries nm ar yr =
     (case yr of
        None \<Rightarrow> []
      | Some y \<Rightarrow> if y \<noteq> 0 then [q_year nm ar y] else [])
     @ [q_strict nm ar, q_loose nm ar]"

text \<open>One pass of the \<open>try\<close> block: the query, and on status 429 the sleep and the second
  call, which is outside the \<open>try\<close>.\<close>

definition search_attempt ::
  "'s spotify \<Rightarrow> string \<Rightarrow> 's world \<Rightarrow> (error + search_item list) \<times> 's world" where
  "search_attempt sp q w =
     (case call (Search q 3) (sp_search sp q 3) w of
        (Inr res, w1) \<Rightarrow> (Inr res, w1)
      | (Inl e, w1) \<Rightarrow>
          (case e of
             SpotifyException http_status hdrs \<Rightarrow>
               if http_status = 429
               then (case hdrs of
                       NoHeaders \<Rightarrow> (Inl AttributeError, w1)
                     | Headers Unparsable \<Rightarrow> (Inl ValueError, w1)
                     | Headers h \<Rightarrow>
                         (let retry = (case h of Seconds r \<Rightarrow> r | _ \<Rightarrow> 2) in
                          if retry + 1 < 0 then (Inl ValueError, w1)
                          else call (Search q 3) (sp_search sp q 3) (sleep sp (retry + 1) w1)))
               else (Inl e, w1)
           | _ \<Rightarrow> (Inl e, w1)))"

definition exact_match :: "text_ops \<Rightarrow> string \<Rightarrow> string \<Rightarrow> search_item \<Rightarrow> bool" where
  "exact_match tx nm ar it =
     (lower tx (strip tx nm) = lower tx (strip tx (sr_name it)) \<and>
      lower tx (strip tx ar) \<in> set (map (\<lambda>a. lower tx (strip tx a)) (sr_artists it)))"

fun search_loop ::
  "text_ops \<Rightarrow> 's spotify \<Rightarrow> string \<Rightarrow> string \<Rightarrow> string list \<Rightarrow> 's world
    \<Rightarrow> (error + string option) \<times> 's world" where
  "search_loop tx sp nm ar [] w = (Inr None, w)"
| "search_loop tx sp nm ar (q # qs) w =
     (case search_attempt sp q w of
        (Inl e, w1) \<Rightarrow> (Inl e, w1)
      | (Inr items, w1) \<Rightarrow>
          (case find (exact_match tx nm ar) items of
             Some it \<Rightarrow> (Inr (Some (sr_id it)), w1)
           | None \<Rightarrow>
               (case items of
                  [] \<Rightarrow> search_loop tx sp nm ar qs w1
                | it0 # _ \<Rightarrow> (Inr (Some (sr_id it0)), w1))))"

definition search_track ::
  "text_ops \<Rightarrow> 's spotify \<Rightarrow> string \<Rightarrow> string \<Rightarrow> int option \<Rightarrow> 's world
    \<Rightarrow> (error + string option) \<times> 's world" where
  "search_track tx sp nm ar yr w = search_loop tx sp nm ar (queries nm ar yr) w"

section \<open>Batched calls\<close>

text \<open>\<open>for i in range(0, len(xs), 100): f(xs[i:i+100])\<close>, from index \<open>i\<close> on; an
  exception of \<open>f\<close> ends the loop.\<close>

function for_chunks ::
  "(string list \<Rightarrow> 's world \<Rightarrow> (error + unit) \<times> 's world) \<Rightarrow> string list \<Rightarrow> nat \<Rightarrow> 's world
    \<Rightarrow> (error + unit) \<times> 's world" where
  "for_chunks f xs i w =
     (if i < length xs
      then (case f (take 100 (drop i xs)) w of
              (Inl e, w1) \<Rightarrow> (Inl e, w1)
            | (Inr _, w1) \<Rightarrow> for_chunks f xs (i + 100) w1)
      else (Inr (), w))"
  by pat_completeness auto
termination
  by (relation "measure (\<lambda>(f, xs, i, w). length xs - i)") auto

declare for_chunks.simps [simp del]

definition add_tracks_in_batches ::
  "'s spotify \<Rightarrow> string \<Rightarrow> string list \<Rightarrow> 's world \<Rightarrow> (error + unit) \<times> 's world" where
  "add_tracks_in_batches sp playlist_id track_ids w =
     for_chunks (\<lambda>chunk. call (PlaylistAddItems playlist_id chunk)
                           (sp_playlist_add_items sp playlist_id chunk))
       track_ids 0 w"

section \<open>Finding a playlist by name\<close>

text \<open>The \<open>for p in items\<close> loop over one page: \<open>Inl\<close> is the id the function returns from
  inside the loop, \<open>Inr\<close> the candidate after the page.\<close>

fun scan_page ::
  "text_ops \<Rightarrow> string \<Rightarrow> string \<Rightarrow> string option \<Rightarrow> playlist_entry list \<Rightarrow> string + string option" where
  "scan_page tx name_lc uid candidate [] = Inr candidate"
| "scan_page tx name_lc uid candidate (p # ps) =
     (if lower tx (strip tx (get_str (pe_name p))) = name_lc
      then (if pe_owner p = Some uid then Inl (pe_id p)
            else scan_page tx name_lc uid
                   (case candidate of None \<Rightarrow> Some (pe_id p) | Some c \<Rightarrow> Some c) ps)
      else scan_page tx name_lc uid candidate ps)"

partial_function (option) find_loop ::
  "text_ops \<Rightarrow> 's spotify \<Rightarrow> string \<Rightarrow> string \<Rightarrow> nat \<Rightarrow> string option \<Rightarrow> 's world
    \<Rightarrow> ((error + string option) \<times> 's world) option" where
  "find_loop tx sp name_lc uid offset candidate w =
     (case call (CurrentUserPlaylists 50 offset) (sp_current_user_playlists sp 50 offset) w of
        (Inl e, w1) \<Rightarrow> Some (Inl e, w1)
      | (Inr items, w1) \<Rightarrow>
          if items = [] then Some (Inr candidate, w1)
          else (case scan_page tx name_lc uid candidate items of
                  Inl pid \<Rightarrow> Some (Inr (Some pid), w1)
                | Inr candidate' \<Rightarrow>
                    if length items < 50 then Some (Inr candidate', w1)
                    else find_loop tx sp name_lc uid (offset + length items) candidate' w1))"

declare find_loop.simps [code]

definition find_user_playlist_by_name ::
  "text_ops \<Rightarrow> 's spotify \<Rightarrow> string \<Rightarrow> 's world \<Rightarrow> ((error + string option) \<times> 's world) option" where
  "find_user_playlist_by_name tx sp nm w =
     (case call CurrentUser (sp_current_user sp) w of
        (Inl e, w1) \<Rightarrow> Some (Inl e, w1)
      | (Inr uid, w1) \<Rightarrow> find_loop tx sp (lower tx (strip tx nm)) uid 0 None w1)"

section \<open>Clearing a playlist\<close>

definition item_uri :: "playlist_item \<Rightarrow> string option" where
  "item_uri it = (case track it of None \<Rightarrow> None | Some t \<Rightarrow> uri t)"

definition collect_uris :: "playlist_item list \<Rightarrow> string list" where
  "collect_uris items =
     concat (map (\<lambda>it. case item_uri it of
                          None \<Rightarrow> []
                        | Some u \<Rightarrow> if truthy u then [u] else []) items)"

partial_function (option) read_loop ::
  "'s spotify \<Rightarrow> string \<Rightarrow> string list \<Rightarrow> nat \<Rightarrow> 's world
    \<Rightarrow> ((error + string list) \<times> 's world) option" where
  "read_loop sp playlist_id uris offset w =
     (case call (PlaylistItems playlist_id 100 offset)
             (sp_playlist_items sp playlist_id 100 offset) w of
        (Inl e, w1) \<Rightarrow> Some (Inl e, w1)
      | (Inr resp, w1) \<Rightarrow>
          if page_items resp = [] then Some (Inr uris, w1)
          else if \<not> truthy_opt (page_next resp)
               then Some (Inr (uris @ collect_uris (page_items resp)), w1)
               else read_loop sp playlist_id (uris @ collect_uris (page_items resp))
                      (offset + 100) w1)"

declare read_loop.simps [code]

definition clear_playlist ::
  "'s spotify \<Rightarrow> string \<Rightarrow> 's world \<Rightarrow> ((error + unit) \<times> 's world) option" where
  "clear_playlist sp playlist_id w =
     (case read_loop sp playlist_id [] 0 w of
        None \<Rightarrow> None
      | Some (Inl e, w1) \<Rightarrow> Some (Inl e, w1)
      | Some (Inr uris, w1) \<Rightarrow>
          Some (for_chunks (\<lambda>chunk. call (PlaylistRemoveAll playlist_id chunk)
                  (sp_playlist_remove_all_occurrences_of_items sp playlist_id chunk))
                  uris 0 w1))"

section \<open>Run driver\<close>

datatype mode = Append | Replace

record args =
  xml :: string
  apple_playlist :: "string option"
  spotify_name :: "string option"
  public :: bool
  log_not_found :: string
  use_existing :: "string option"
  mode :: mode

definition env_vars :: "string list" where
  "env_vars = [''SPOTIPY_CLIENT_ID'', ''SPOTIPY_CLIENT_SECRET'', ''SPOTIPY_REDIRECT_URI'']"

definition description :: string where
  "description = ''Imported from Apple Music XML''"

text \<open>Lines 210 to 229 of the source: the branch on \<open>--use-existing\<close> and \<open>--spotify-name\<close>,
  giving the target playlist id.\<close>

definition resolve_target ::
  "text_ops \<Rightarrow> 's spotify \<Rightarrow> args \<Rightarrow> 's world \<Rightarrow> ((error + string) \<times> 's world) option" where
  "resolve_target tx sp a w =
     (if truthy_opt (use_existing a)
      then (case find_user_playlist_by_name tx sp (get_str (use_existing a)) w of
              None \<Rightarrow> None
            | Some (Inl e, w1) \<Rightarrow> Some (Inl e, w1)
            | Some (Inr playlist_id, w1) \<Rightarrow>
                if \<not> truthy_opt playlist_id
                then Some (Inl (SystemExit 1),
                           emit (Stderr (MsgPlaylistNotFound (get_str (use_existing a)))) w1)
                else (let w2 = emit (Stdout (MsgUsingExisting (get_str (use_existing a)))) w1 in
                      if mode a = Replace
                      then (case clear_playlist sp (get_str playlist_id)
                                   (emit (Stdout MsgClearing) w2) of
                              None \<Rightarrow> None
                            | Some (Inl e, w3) \<Rightarrow> Some (Inl e, w3)
                            | Some (Inr _, w3) \<Rightarrow> Some (Inr (get_str playlist_id), w3))
                      else Some (Inr (get_str playlist_id), w2)))
      else if truthy_opt (spotify_name a)
      then (case create_playlist sp (spotify_name a) (public a) description w of
              (Inl e, w1) \<Rightarrow> Some (Inl e, w1)
            | (Inr playlist_id, w1) \<Rightarrow>
                Some (Inr playlist_id, emit (Stdout (MsgCreated (get_str (spotify_name a)))) w1))
      else Some (Inl (SystemExit 1), emit (Stderr MsgUsage) w))"

text \<open>The \<open>for it in items\<close> loop of lines 233 to 240.\<close>

fun match_loop ::
  "text_ops \<Rightarrow> 's spotify \<Rightarrow> track_record list \<Rightarrow> string list \<Rightarrow> track_record list \<Rightarrow> 's world
    \<Rightarrow> (error + string list \<times> track_record list) \<times> 's world" where
  "match_loop tx sp [] found_ids misses w = (Inr (found_ids, misses), w)"
| "match_loop tx sp (it # items) found_ids misses w =
     (case search_track tx sp (name it) (artist it) (year it) w of
        (Inl e, w1) \<Rightarrow> (Inl e, w1)
      | (Inr sid, w1) \<Rightarrow>
          if truthy_opt sid
          then match_loop tx sp items (found_ids @ [get_str sid]) misses
                 (emit (Stdout (MsgFound (name it) (artist it))) w1)
          else match_loop tx sp items found_ids (misses @ [it])
                 (emit (Stdout (MsgNotFound (name it) (artist it))) w1))"

text \<open>Lines 231 to 249: matching, the batched write and the report.\<close>

definition import_tracks ::
  "text_ops \<Rightarrow> 's spotify \<Rightarrow> args \<Rightarrow> track_record list \<Rightarrow> string \<Rightarrow> 's world \<Rightarrow> (error + unit) \<times> 's world" where
  "import_tracks tx sp a items playlist_id w =
     (case match_loop tx sp items [] [] w of
        (Inl e, w1) \<Rightarrow> (Inl e, w1)
      | (Inr (found_ids, misses), w1) \<Rightarrow>
          (case (if found_ids \<noteq> [] then add_tracks_in_batches sp playlist_id found_ids w1
                 else (Inr (), w1)) of
             (Inl e, w2) \<Rightarrow> (Inl e, w2)
           | (Inr _, w2) \<Rightarrow>
               (let w3 = emit (Stdout (MsgDone (length found_ids) (spotify_name a))) w2 in
                if misses \<noteq> []
                then (Inr (), emit (Stdout (MsgLogged (length misses) (log_not_found a)))
                                (emit (WriteCsv (log_not_found a) misses) w3))
                else (Inr (), w3))))"

text \<open>
  \<open>main\<close>: \<open>env\<close> is the process environment, \<open>fs\<close> and \<open>unescape\<close> are the reader's.
  \<open>sys.exit(n)\<close> is the error \<open>SystemExit n\<close>. The result is \<open>None\<close> when a paging loop
  never ends.
\<close>

definition main ::
  "text_ops \<Rightarrow> (string \<Rightarrow> string option) \<Rightarrow> (string \<Rightarrow> error + plist) \<Rightarrow> (string \<Rightarrow> string) \<Rightarrow> 's spotify
    \<Rightarrow> args \<Rightarrow> 's world \<Rightarrow> ((error + unit) \<times> 's world) option" where
  "main tx env fs unescape sp a w =
     (case find (\<lambda>var. \<not> truthy_opt (env var)) env_vars of
        Some var \<Rightarrow> Some (Inl (SystemExit 2), emit (Stderr (MsgEnvMissing var)) w)
      | None \<Rightarrow>
          (case load_apple_xml tx fs unescape (xml a) (apple_playlist a) of
             Inl e \<Rightarrow> Some (Inl e, w)
           | Inr items \<Rightarrow>
               if items = [] then Some (Inl (SystemExit 1), emit (Stdout MsgNoTracks) w)
               else (case create_playlist sp (spotify_name a) (public a) description w of
                       (Inl e, w1) \<Rightarrow> Some (Inl e, w1)
                     | (Inr _, w1) \<Rightarrow>
                         (case resolve_target tx sp a w1 of
                            None \<Rightarrow> None
                          | Some (Inl e, w2) \<Rightarrow> Some (Inl e, w2)
                          | Some (Inr playlist_id, w2) \<Rightarrow>
                              Some (import_tracks tx sp a items playlist_id w2)))))"

section \<open>A reference service\<close>

text \<open>
  A service that behaves as the program expects of the remote boundary: the library and
  every playlist are finite lists served in pages (a slice of at most \<open>limit\<close> entries from
  \<open>offset\<close>, with a continuation exactly when entries remain), creation appends an empty
  playlist owned by the caller, adding appends the tracks, and removal deletes every
  occurrence of the listed uris. No call fails. It is the service of the concrete runs
  below and of the statements about the content of a playlist after a run.
\<close>

record ref_playlist =
  rp_id :: string
  rp_name :: "string option"
  rp_owner :: string
  rp_items :: "playlist_item list"

record ref_state =
  rs_user :: string
  rs_library :: "ref_playlist list"
  rs_catalog :: "string \<Rightarrow> search_item list"

definition entry_of :: "ref_playlist \<Rightarrow> playlist_entry" where
  "entry_of p = \<lparr> pe_name = rp_name p, pe_owner = Some (rp_owner p), pe_id = rp_id p \<rparr>"

definition track_uri :: "string \<Rightarrow> string" where
  "track_uri tid = ''spotify:track:'' @ tid"

definition items_of :: "ref_state \<Rightarrow> string \<Rightarrow> playlist_item list" where
  "items_of s pid = (case find (\<lambda>p. rp_id p = pid) (rs_library s) of
                       None \<Rightarrow> []
                     | Some p \<Rightarrow> rp_items p)"

definition update_items ::
  "string \<Rightarrow> (playlist_item list \<Rightarrow> playlist_item list) \<Rightarrow> ref_state \<Rightarrow> ref_state" where
  "update_items pid f s =
     s \<lparr> rs_library := map (\<lambda>p. if rp_id p = pid then p \<lparr> rp_items := f (rp_items p) \<rparr> else p)
                          (rs_library s) \<rparr>"

definition removable :: "string list \<Rightarrow> playlist_item \<Rightarrow> bool" where
  "removable uris it = (case item_uri it of None \<Rightarrow> False | Some u \<Rightarrow> u \<in> set uris)"

definition ref_spotify :: "ref_state spotify" where
  "ref_spotify =
     \<lparr> sp_current_user = (\<lambda>s. (Inr (rs_user s), s)),
       sp_user_playlist_create = (\<lambda>uid nm pub desc s.
          (let pid = ''playlist-'' @ str_nat (length (rs_library s)) in
           (Inr pid,
            s \<lparr> rs_library := rs_library s @
                  [\<lparr> rp_id = pid, rp_name = nm, rp_owner = uid, rp_items = [] \<rparr>] \<rparr>))),
       sp_search = (\<lambda>q limit s. (Inr (take limit (rs_catalog s q)), s)),
       sp_playlist_add_items = (\<lambda>pid ids s.
          (Inr (), update_items pid
                     (\<lambda>its. its @ map (\<lambda>t. Item (Some (Track (Some (track_uri t))))) ids) s)),
       sp_current_user_playlists = (\<lambda>limit offset s.
          (Inr (map entry_of (take limit (drop offset (rs_library s)))), s)),
       sp_playlist_items = (\<lambda>pid limit offset s.
          (Inr \<lparr> page_items = take limit (drop offset (items_of s pid)),
                 page_next = (if offset + limit < length (items_of s pid)
                              then Some ''next'' else None) \<rparr>, s)),
       sp_playlist_remove_all_occurrences_of_items = (\<lambda>pid uris s.
          (Inr (), update_items pid (filter (\<lambda>it. \<not> removable uris it)) s)),
       sp_sleep = (\<lambda>t s. s) \<rparr>"

section \<open>Notions used in the statements\<close>

text \<open>
  \<open>run_attempts sp qs w\<close> issues one attempt (with its rate-limit retry) for every query of
  \<open>qs\<close>, in order, whatever the attempts return, and lists what each returned. It is not
  part of the program: it names the per-attempt results that a statement about the
  matcher speaks of.
\<close>

fun run_attempts ::
  "'s spotify \<Rightarrow> string list \<Rightarrow> 's world \<Rightarrow> (error + search_item list list) \<times> 's world" where
  "run_attempts sp [] w = (Inr [], w)"
| "run_attempts sp (q # qs) w =
     (case search_attempt sp q w of
        (Inl e, w1) \<Rightarrow> (Inl e, w1)
      | (Inr items, w1) \<Rightarrow>
          (case run_attempts sp qs w1 of
             (Inl e, w2) \<Rightarrow> (Inl e, w2)
           | (Inr rest, w2) \<Rightarrow> (Inr (items # rest), w2)))"

text \<open>The choice the specification describes among the candidates of one attempt: the id
  of an exact match if there is one, otherwise the id of the first candidate, and nothing
  when there is no candidate.\<close>

definition spec_choice :: "text_ops \<Rightarrow> string \<Rightarrow> string \<Rightarrow> search_item list \<Rightarrow> string option" where
  "spec_choice tx nm ar items =
     (if \<exists>it \<in> set items. exact_match tx nm ar it
      then map_option sr_id (find (exact_match tx nm ar) items)
      else (case items of [] \<Rightarrow> None | it0 # _ \<Rightarrow> Some (sr_id it0)))"

text \<open>The chunks that the batching loop passes on, from index \<open>i\<close>.\<close>

function chunks :: "string list \<Rightarrow> nat \<Rightarrow> string list list" where
  "chunks xs i = (if i < length xs then take 100 (drop i xs) # chunks xs (i + 100) else [])"
  by pat_completeness auto
termination
  by (relation "measure (\<lambda>(xs, i). length xs - i)") auto

declare chunks.simps [simp del]

text \<open>The offsets at which the clearing loop reads a playlist of \<open>n\<close> items that is served
  in honest pages, from offset \<open>k\<close> on.\<close>

function read_offsets :: "nat \<Rightarrow> nat \<Rightarrow> nat list" where
  "read_offsets n k = (if k + 100 < n then k # read_offsets n (k + 100) else [k])"
  by pat_completeness auto
termination
  by (relation "measure (\<lambda>(n, k). n - k)") auto

declare read_offsets.simps [simp del]

text \<open>An item that the clearing loop collects: its track is there and carries a non-empty
  uri.\<close>

definition has_uri :: "playlist_item \<Rightarrow> bool" where
  "has_uri it = (case item_uri it of None \<Rightarrow> False | Some u \<Rightarrow> truthy u)"

section \<open>Concrete inputs\<close>

text \<open>A small library export: two spellings of one song, an entry without a title, and a
  playlist naming an unknown track.\<close>

definition ex_plist :: plist where
  "ex_plist =
     \<lparr> Tracks =
         [(1, \<lparr> Track_ID = Some 1, Name = Some ''Yesterday'', Artist = Some ''The Beatles'',
                 Year = Some (PInt 1965) \<rparr>),
          (2, \<lparr> Track_ID = Some 2, Name = Some '' yesterday'', Artist = Some ''the beatles '',
                 Year = Some (PInt 1965) \<rparr>),
          (3, \<lparr> Track_ID = None, Name = None, Artist = Some ''Nobody'', Year = None \<rparr>),
          (4, \<lparr> Track_ID = Some 4, Name = Some ''Help!'', Artist = Some ''The Beatles'',
                 Year = Some (PStr ''1965'') \<rparr>)],
       Playlists =
         [\<lparr> Playlist_Name = Some ''Road Trip'',
            Playlist_Items = Some [Some 4, Some 2, None, Some 9, Some 1],
            Playlist_Other = True \<rparr>] \<rparr>"

definition ex_fs :: "string \<Rightarrow> error + plist" where
  "ex_fs path = (if path = ''Library.xml'' then Inr ex_plist else Inl FileError)"

definition ex_recs :: "track_record list" where
  "ex_recs = [\<lparr> name = ''Help!'', artist = ''The Beatles'', year = None \<rparr>,
              \<lparr> name = ''yesterday'', artist = ''the beatles'', year = Some 1965 \<rparr>]"

text \<open>A service that answers the k-th search call with the k-th entry of a script (and
  with no candidates once the script is used up); its state counts the search calls.\<close>

definition scripted_spotify :: "(error + search_item list) list \<Rightarrow> nat spotify" where
  "scripted_spotify script =
     \<lparr> sp_current_user = (\<lambda>s. (Inr ''me'', s)),
       sp_user_playlist_create = (\<lambda>uid nm pub desc s. (Inr ''new'', s)),
       sp_search = (\<lambda>q limit s. (if s < length script then script ! s else Inr [], Suc s)),
       sp_playlist_add_items = (\<lambda>pid ids s. (Inr (), s)),
       sp_current_user_playlists = (\<lambda>limit offset s. (Inr [], s)),
       sp_playlist_items = (\<lambda>pid limit offset s.
          (Inr \<lparr> page_items = [], page_next = None \<rparr>, s)),
       sp_playlist_remove_all_occurrences_of_items = (\<lambda>pid uris s. (Inr (), s)),
       sp_sleep = (\<lambda>t s. s) \<rparr>"

definition w0 :: "nat world" where
  "w0 = \<lparr> log = [], remote = 0 \<rparr>"

definition cover :: search_item where
  "cover = \<lparr> sr_name = ''Yesterday - Live'', sr_artists = [''Paul McCartney''], sr_id = ''cover'' \<rparr>"

definition orig :: search_item where
  "orig = \<lparr> sr_name = '' YESTERDAY'', sr_artists = [''George Martin'', ''the beatles''],
            sr_id = ''orig'' \<rparr>"

definition many_ids :: "string list" where
  "many_ids = replicate 100 ''a'' @ replicate 100 ''b'' @ [''c'', ''d'']"

text \<open>A library of the reference service: a playlist of three tracks, a playlist whose
  two items carry no uri (one without a track object, one whose track has no uri), and a
  playlist with one track among items that carry no uri or an empty one.\<close>

definition ex_state :: ref_state where
  "ex_state =
     \<lparr> rs_user = ''me'',
       rs_library =
         [\<lparr> rp_id = ''p1'', rp_name = Some ''Road Trip'', rp_owner = ''me'',
            rp_items = [Item (Some (Track (Some ''spotify:track:1''))),
                        Item (Some (Track (Some ''spotify:track:2''))),
                        Item (Some (Track (Some ''spotify:track:1'')))] \<rparr>,
          \<lparr> rp_id = ''p2'', rp_name = Some ''Local Files'', rp_owner = ''me'',
            rp_items = [Item None, Item (Some (Track None))] \<rparr>,
          \<lparr> rp_id = ''p3'', rp_name = Some ''Mixed'', rp_owner = ''me'',
            rp_items = [Item (Some (Track (Some ''spotify:track:7''))), Item None,
                        Item (Some (Track (Some [])))] \<rparr>],
       rs_catalog = (\<lambda>q. if q = ''Help! The Beatles''
                          then [\<lparr> sr_name = ''Help!'', sr_artists = [''The Beatles''],
                                  sr_id = ''help1'' \<rparr>]
                          else []) \<rparr>"

text \<open>A service like the reference service, except that it rejects the creation of a
  playlist without a name.\<close>

definition strict_spotify :: "ref_state spotify" where
  "strict_spotify =
     ref_spotify \<lparr> sp_user_playlist_create := (\<lambda>uid nm pub desc s.
        case nm of
          None \<Rightarrow> (Inl (SpotifyException 400 (Headers Absent)), s)
        | Some _ \<Rightarrow> sp_user_playlist_create ref_spotify uid nm pub desc s) \<rparr>"

text \<open>Runs: the credentials are set; the arguments name a new playlist, or an existing one
  that the library does not hold, or neither.\<close>

definition ex_env :: "string \<Rightarrow> string option" where
  "ex_env var = (if var \<in> set env_vars then Some ''x'' else None)"

definition create_args :: args where
  "create_args =
     \<lparr> xml = ''Library.xml'', apple_playlist = None, spotify_name = Some ''Imported'',
       public = False, log_not_found = ''not_found.csv'', use_existing = None, mode = Append \<rparr>"

definition reuse_args :: args where
  "reuse_args = create_args \<lparr> use_existing := Some ''Gym'' \<rparr>"

definition bare_args :: args where
  "bare_args = create_args \<lparr> spotify_name := None \<rparr>"


section \<open>Reader: deduplication\<close>

lemma dedupe_acc: "dedupe tx items seen unique = unique @ dedupe tx items seen []"
proof (induction items arbitrary: seen unique)
  case Nil
  show ?case by simp
next
  case (Cons it items)
  show ?case
    using Cons.IH [of "insert (key_of tx it) seen" "unique @ [it]"]
      Cons.IH [of "insert (key_of tx it) seen" "[it]"] Cons.IH [of seen unique]
    by simp
qed

lemma dedupe_step_keep:
  "truthy (name it) \<and> truthy (artist it) \<and> key_of tx it \<notin> seen \<Longrightarrow>
   dedupe tx (it # items) seen [] = it # dedupe tx items (insert (key_of tx it) seen) []"
  using dedupe_acc [of tx items "insert (key_of tx it) seen" "[it]"] by simp

lemma dedupe_step_drop:
  "\<not> (truthy (name it) \<and> truthy (artist it) \<and> key_of tx it \<notin> seen) \<Longrightarrow>
   dedupe tx (it # items) seen [] = dedupe tx items seen []"
  by auto

declare dedupe.simps(2) [simp del]

lemma dedupe_keys_fresh: "key_of tx ` set (dedupe tx items seen []) \<inter> seen = {}"
proof (induction items arbitrary: seen)
  case Nil
  show ?case by simp
next
  case (Cons it items)
  show ?case
  proof (cases "truthy (name it) \<and> truthy (artist it) \<and> key_of tx it \<notin> seen")
    case True
    then show ?thesis
      using Cons.IH [of "insert (key_of tx it) seen"] by (auto simp: dedupe_step_keep [OF True])
  next
    case False
    then show ?thesis using Cons.IH [of seen] by (simp only: dedupe_step_drop [OF False])
  qed
qed

lemma dedupe_distinct: "distinct (map (key_of tx) (dedupe tx items seen []))"
proof (induction items arbitrary: seen)
  case Nil
  show ?case by simp
next
  case (Cons it items)
  show ?case
  proof (cases "truthy (name it) \<and> truthy (artist it) \<and> key_of tx it \<notin> seen")
    case True
    have "key_of tx it \<notin> key_of tx ` set (dedupe tx items (insert (key_of tx it) seen) [])"
      using dedupe_keys_fresh [of tx items "insert (key_of tx it) seen"] by auto
    then show ?thesis
      using Cons.IH [of "insert (key_of tx it) seen"] by (simp add: dedupe_step_keep [OF True])
  next
    case False
    then show ?thesis using Cons.IH [of seen] by (simp only: dedupe_step_drop [OF False])
  qed
qed

lemma dedupe_truthy:
  "r \<in> set (dedupe tx items seen []) \<Longrightarrow> truthy (name r) \<and> truthy (artist r)"
proof (induction items arbitrary: seen)
  case Nil
  then show ?case by simp
next
  case (Cons it items)
  show ?case
  proof (cases "truthy (name it) \<and> truthy (artist it) \<and> key_of tx it \<notin> seen")
    case True
    then show ?thesis
      using Cons.prems Cons.IH [of "insert (key_of tx it) seen"]
      by (auto simp: dedupe_step_keep [OF True])
  next
    case False
    then show ?thesis
      using Cons.prems Cons.IH [of seen] by (simp only: dedupe_step_drop [OF False])
  qed
qed

lemma dedupe_subseq: "subseq (dedupe tx items seen []) items"
proof (induction items arbitrary: seen)
  case Nil
  show ?case by simp
next
  case (Cons it items)
  show ?case
  proof (cases "truthy (name it) \<and> truthy (artist it) \<and> key_of tx it \<notin> seen")
    case True
    then show ?thesis
      using Cons.IH [of "insert (key_of tx it) seen"] by (simp add: dedupe_step_keep [OF True])
  next
    case False
    then show ?thesis
      using Cons.IH [of seen] by (simp only: dedupe_step_drop [OF False] list_emb_Cons)
  qed
qed

lemma dedupe_first_occurrence:
  "r \<in> set (dedupe tx items seen []) \<Longrightarrow>
   find (\<lambda>x. truthy (name x) \<and> truthy (artist x) \<and> key_of tx x = key_of tx r) items = Some r"
proof (induction items arbitrary: seen)
  case Nil
  then show ?case by simp
next
  case (Cons it items)
  show ?case
  proof (cases "truthy (name it) \<and> truthy (artist it) \<and> key_of tx it \<notin> seen")
    case True
    have mem: "r = it \<or> r \<in> set (dedupe tx items (insert (key_of tx it) seen) [])"
      using Cons.prems by (simp add: dedupe_step_keep [OF True])
    show ?thesis
    proof (cases "r = it")
      case True
      then show ?thesis using \<open>truthy (name it) \<and> truthy (artist it) \<and> key_of tx it \<notin> seen\<close>
        by simp
    next
      case False
      with mem have r: "r \<in> set (dedupe tx items (insert (key_of tx it) seen) [])" by simp
      then have "key_of tx r \<in> key_of tx ` set (dedupe tx items (insert (key_of tx it) seen) [])"
        by (rule imageI)
      moreover have "key_of tx it \<in> insert (key_of tx it) seen" by simp
      ultimately have "key_of tx r \<noteq> key_of tx it"
        using dedupe_keys_fresh [of tx items "insert (key_of tx it) seen"] by blast
      then show ?thesis using Cons.IH [OF r] by auto
    qed
  next
    case False
    have r: "r \<in> set (dedupe tx items seen [])"
      using Cons.prems by (simp only: dedupe_step_drop [OF False])
    have fresh: "key_of tx r \<notin> seen" using dedupe_keys_fresh [of tx items seen] r by auto
    have "\<not> (truthy (name it) \<and> truthy (artist it) \<and> key_of tx it = key_of tx r)"
      using False fresh by auto
    then have "find (\<lambda>x. truthy (name x) \<and> truthy (artist x) \<and> key_of tx x = key_of tx r)
                 (it # items) =
               find (\<lambda>x. truthy (name x) \<and> truthy (artist x) \<and> key_of tx x = key_of tx r) items"
      by (simp only: find.simps if_False)
    then show ?thesis using Cons.IH [OF r] by simp
  qed
qed

lemma dedupe_first_of_key:
  assumes low: "\<forall>s. lower tx s = [] \<longleftrightarrow> s = []"
    and r: "r \<in> set (dedupe tx items seen [])"
  shows "find (\<lambda>x. key_of tx x = key_of tx r) items = Some r"
proof -
  have ok: "truthy (name r) \<and> truthy (artist r)" using dedupe_truthy [OF r] .
  have "(\<lambda>x. truthy (name x) \<and> truthy (artist x) \<and> key_of tx x = key_of tx r) =
        (\<lambda>x. key_of tx x = key_of tx r)"
  proof
    fix x
    show "(truthy (name x) \<and> truthy (artist x) \<and> key_of tx x = key_of tx r) =
          (key_of tx x = key_of tx r)"
    proof (cases "key_of tx x = key_of tx r")
      case True
      then have "lower tx (name x) = lower tx (name r)" "lower tx (artist x) = lower tx (artist r)"
        by (simp_all add: key_of_def)
      then have "truthy (name x) \<and> truthy (artist x)"
        using ok low by (metis truthy_def)
      with True show ?thesis by simp
    next
      case False
      then show ?thesis by simp
    qed
  qed
  with dedupe_first_occurrence [OF r] show ?thesis by simp
qed

lemma dedupe_complete:
  "x \<in> set items \<Longrightarrow> truthy (name x) \<Longrightarrow> truthy (artist x) \<Longrightarrow> key_of tx x \<notin> seen \<Longrightarrow>
   key_of tx x \<in> key_of tx ` set (dedupe tx items seen [])"
proof (induction items arbitrary: seen)
  case Nil
  then show ?case by simp
next
  case (Cons it items)
  show ?case
  proof (cases "truthy (name it) \<and> truthy (artist it) \<and> key_of tx it \<notin> seen")
    case True
    show ?thesis
    proof (cases "key_of tx x = key_of tx it")
      case True
      then show ?thesis using \<open>truthy (name it) \<and> truthy (artist it) \<and> key_of tx it \<notin> seen\<close>
        by (simp add: dedupe_step_keep)
    next
      case False
      then have "x \<in> set items" using Cons.prems(1) by auto
      moreover have "key_of tx x \<notin> insert (key_of tx it) seen" using False Cons.prems(4) by simp
      ultimately have "key_of tx x \<in> key_of tx ` set (dedupe tx items (insert (key_of tx it) seen) [])"
        using Cons.IH Cons.prems(2,3) by blast
      then show ?thesis by (simp add: dedupe_step_keep [OF True])
    qed
  next
    case False
    have "x \<noteq> it" using False Cons.prems(2,3,4) by auto
    then have "x \<in> set items" using Cons.prems(1) by simp
    then have "key_of tx x \<in> key_of tx ` set (dedupe tx items seen [])"
      using Cons.IH Cons.prems(2,3,4) by blast
    then show ?thesis by (simp only: dedupe_step_drop [OF False])
  qed
qed

text \<open>
  C5. Whatever the file and the playlist argument, when the reader returns a list then no
  two of its records have the same lower-cased (title, artist) pair, none has an empty title
  or an empty artist, the list is a subsequence of the resolved source sequence, each
  record is the first one of the source sequence that has a title, an artist and its key,
  and every source record with a title and an artist is represented. Where lower-casing
  yields the empty string for the empty string only (as \<open>str.lower\<close> does), each record is
  the first one of the source sequence with its key.
\<close>

theorem load_apple_xml_dedup:
  "load_apple_xml tx fs unescape xml_path preferred = Inr recs \<Longrightarrow>
   \<exists>pl. fs xml_path = Inr pl \<and>
     (let items = resolve_items tx unescape pl preferred in
        distinct (map (key_of tx) recs) \<and>
        (\<forall>r \<in> set recs. name r \<noteq> [] \<and> artist r \<noteq> []) \<and>
        subseq recs items \<and>
        (\<forall>r \<in> set recs.
           find (\<lambda>x. name x \<noteq> [] \<and> artist x \<noteq> [] \<and> key_of tx x = key_of tx r) items = Some r) \<and>
        (\<forall>x \<in> set items. name x \<noteq> [] \<and> artist x \<noteq> [] \<longrightarrow> key_of tx x \<in> key_of tx ` set recs) \<and>
        ((\<forall>s. lower tx s = [] \<longleftrightarrow> s = []) \<longrightarrow>
           (\<forall>r \<in> set recs. find (\<lambda>x. key_of tx x = key_of tx r) items = Some r)))"
proof -
  assume a: "load_apple_xml tx fs unescape xml_path preferred = Inr recs"
  then obtain pl where pl: "fs xml_path = Inr pl"
    and recs: "recs = dedupe tx (resolve_items tx unescape pl preferred) {} []"
    by (auto simp: load_apple_xml_def split: sum.splits)
  let ?items = "resolve_items tx unescape pl preferred"
  have 1: "distinct (map (key_of tx) recs)" using recs dedupe_distinct by simp
  have 2: "\<forall>r \<in> set recs. name r \<noteq> [] \<and> artist r \<noteq> []"
    using dedupe_truthy recs truthy_def by blast
  have 3: "subseq recs ?items" using recs dedupe_subseq by simp
  have 4: "\<forall>r \<in> set recs.
      find (\<lambda>x. name x \<noteq> [] \<and> artist x \<noteq> [] \<and> key_of tx x = key_of tx r) ?items = Some r"
    using dedupe_first_occurrence [of _ tx ?items "{}"] recs by (simp add: truthy_def)
  have 5: "\<forall>x \<in> set ?items. name x \<noteq> [] \<and> artist x \<noteq> [] \<longrightarrow> key_of tx x \<in> key_of tx ` set recs"
    using dedupe_complete [of _ ?items tx "{}"] recs truthy_def by simp
  have 6: "(\<forall>s. lower tx s = [] \<longleftrightarrow> s = []) \<longrightarrow>
      (\<forall>r \<in> set recs. find (\<lambda>x. key_of tx x = key_of tx r) ?items = Some r)"
    using dedupe_first_of_key [of tx _ ?items "{}"] recs by blast
  show ?thesis
    using pl 1 2 3 4 5 6 by (simp add: Let_def)
qed

theorem load_apple_xml_dedup_witness:
  "load_apple_xml ascii_ops ex_fs id ''Library.xml'' (Some '' road trip'') = Inr ex_recs \<and>
   distinct (map (key_of ascii_ops) ex_recs) \<and>
   list_all (\<lambda>r. name r \<noteq> [] \<and> artist r \<noteq> []) ex_recs \<and>
   subseq ex_recs (resolve_items ascii_ops id ex_plist (Some '' road trip''))"
proof -
  have h: "load_apple_xml ascii_ops ex_fs id ''Library.xml'' (Some '' road trip'') = Inr ex_recs"
    by code_simp
  have pl: "ex_fs ''Library.xml'' = Inr ex_plist" by (simp add: ex_fs_def)
  show ?thesis
    using h pl load_apple_xml_dedup [OF h] by (simp add: Let_def list_all_iff)
qed


section \<open>Matcher\<close>

lemma spec_choice_None: "spec_choice tx nm ar items = None \<longleftrightarrow> items = []"
  by (auto simp: spec_choice_def find_None_iff split: list.splits)

lemma spec_choice_exact:
  "find (exact_match tx nm ar) items = Some it \<Longrightarrow> spec_choice tx nm ar items = Some (sr_id it)"
  by (auto simp: spec_choice_def find_Some_iff)

lemma spec_choice_first:
  "find (exact_match tx nm ar) (it0 # rest) = None \<Longrightarrow> spec_choice tx nm ar (it0 # rest) = Some (sr_id it0)"
  by (auto simp: spec_choice_def find_None_iff simp del: find.simps)

lemma search_loop_trace:
  "search_loop tx sp nm ar qs w = (Inr r, w') \<Longrightarrow>
   \<exists>k rs. k \<le> length qs \<and> run_attempts sp (take k qs) w = (Inr rs, w') \<and> length rs = k \<and>
     (\<forall>items \<in> set (butlast rs). items = []) \<and>
     (r = None \<longleftrightarrow> k = length qs \<and> (\<forall>items \<in> set rs. items = [])) \<and>
     r = (if rs = [] then None else spec_choice tx nm ar (last rs))"
proof (induction qs arbitrary: w)
  case Nil
  then show ?case by auto
next
  case (Cons q qs)
  obtain a w1 where att: "search_attempt sp q w = (a, w1)" by (cases "search_attempt sp q w")
  with Cons.prems obtain items where a: "a = Inr items" by (cases a) auto
  show ?case
  proof (cases "items = []")
    case True
    then have "search_loop tx sp nm ar qs w1 = (Inr r, w')"
      using Cons.prems att a by simp
    from Cons.IH [OF this] obtain k rs where
      k: "k \<le> length qs" and run: "run_attempts sp (take k qs) w1 = (Inr rs, w')"
      and len: "length rs = k" and bl: "\<forall>items \<in> set (butlast rs). items = []"
      and none: "r = None \<longleftrightarrow> k = length qs \<and> (\<forall>items \<in> set rs. items = [])"
      and r: "r = (if rs = [] then None else spec_choice tx nm ar (last rs))" by blast
    have run': "run_attempts sp (take (Suc k) (q # qs)) w = (Inr ([] # rs), w')"
      using att a True run by simp
    have bl': "\<forall>items \<in> set (butlast ([] # rs)). items = []"
      using bl by auto
    have r': "r = (if [] # rs = [] then None else spec_choice tx nm ar (last ([] # rs)))"
      using r spec_choice_None [of tx nm ar "[]"] by auto
    have none': "r = None \<longleftrightarrow> Suc k = length (q # qs) \<and> (\<forall>items \<in> set ([] # rs). items = [])"
      using none by simp
    show ?thesis
      apply (rule exI [of _ "Suc k"], rule exI [of _ "[] # rs"])
      using k run' len bl' none' r' by simp
  next
    case False
    have res: "r = spec_choice tx nm ar items \<and> w' = w1"
    proof (cases "find (exact_match tx nm ar) items")
      case None
      then show ?thesis using Cons.prems att a False spec_choice_first [of tx nm ar]
        by (cases items) auto
    next
      case (Some it)
      then show ?thesis using Cons.prems att a spec_choice_exact [OF Some] by simp
    qed
    have run': "run_attempts sp (take (Suc 0) (q # qs)) w = (Inr [items], w')"
      using att a res by simp
    have "r \<noteq> None" using res False by (simp add: spec_choice_None)
    then show ?thesis
      apply (intro exI [of _ "Suc 0"] exI [of _ "[items]"])
      using run' res False by simp
  qed
qed

lemma search_loop_exact:
  "run_attempts sp pre w = (Inr rs, w1) \<Longrightarrow> \<forall>items \<in> set rs. items = [] \<Longrightarrow>
   search_attempt sp q w1 = (Inr items, w2) \<Longrightarrow> find (exact_match tx nm ar) items = Some it \<Longrightarrow>
   search_loop tx sp nm ar (pre @ q # post) w = (Inr (Some (sr_id it)), w2)"
proof (induction pre arbitrary: w rs)
  case Nil
  then show ?case by simp
next
  case (Cons p pre)
  obtain a wa where att: "search_attempt sp p w = (a, wa)" by (cases "search_attempt sp p w")
  with Cons.prems(1) obtain its where a: "a = Inr its" by (cases a) auto
  obtain b wb where rest: "run_attempts sp pre wa = (b, wb)" by (cases "run_attempts sp pre wa")
  with Cons.prems(1) att a obtain rs' where b: "b = Inr rs'" by (cases b) auto
  have rs: "rs = its # rs'" and wb: "wb = w1" using Cons.prems(1) att a rest b by auto
  have its: "its = []" using Cons.prems(2) rs by simp
  have "search_loop tx sp nm ar (pre @ q # post) wa = (Inr (Some (sr_id it)), w2)"
    using Cons.IH [of wa rs'] rest b wb Cons.prems(2,3,4) rs by simp
  then show ?case using att a its by simp
qed

text \<open>
  C8, as the code has it. One attempt of the matcher. A query that succeeds is issued once.
  On status 429 with headers that give a retry interval of \<open>r\<close> seconds, an integer with
  \<open>0 \<le> r + 1\<close> (or give none, where the program takes 2), the program sleeps \<open>r + 1\<close>
  seconds and issues the same query once more; what that second call returns or raises is
  the outcome of the attempt. Any other error of the query is the outcome of the attempt
  after one call. An error of an attempt is the outcome of the matcher, of the matching
  loop at whatever record it is, and of the import.
\<close>

theorem search_attempt_retry:
  "(sp_search sp q 3 (remote w) = (Inr res, s1) \<longrightarrow>
      search_attempt sp q w = (Inr res, \<lparr> log = log w @ [Search q 3], remote = s1 \<rparr>)) \<and>
   (sp_search sp q 3 (remote w) = (Inl (SpotifyException 429 (Headers h)), s1) \<and>
    (h = Seconds r \<or> h = Absent \<and> r = 2) \<and> 0 \<le> r + 1 \<longrightarrow>
      search_attempt sp q w =
        (fst (sp_search sp q 3 (sp_sleep sp (r + 1) s1)),
         \<lparr> log = log w @ [Search q 3, Sleep (r + 1), Search q 3],
           remote = snd (sp_search sp q 3 (sp_sleep sp (r + 1) s1)) \<rparr>)) \<and>
   (sp_search sp q 3 (remote w) = (Inl e, s1) \<and> (\<forall>hd. e \<noteq> SpotifyException 429 hd) \<longrightarrow>
      search_attempt sp q w = (Inl e, \<lparr> log = log w @ [Search q 3], remote = s1 \<rparr>)) \<and>
   (search_attempt sp q w = (Inl e, w1) \<longrightarrow> search_loop tx sp nm ar (q # qs) w = (Inl e, w1)) \<and>
   (search_track tx sp (name it) (artist it) (year it) w = (Inl e, w1) \<longrightarrow>
      match_loop tx sp (it # items) found_ids misses w = (Inl e, w1)) \<and>
   (match_loop tx sp items [] [] w = (Inl e, w1) \<longrightarrow>
      import_tracks tx sp a items pid w = (Inl e, w1))"
proof (intro conjI impI)
  assume "sp_search sp q 3 (remote w) = (Inr res, s1)"
  then show "search_attempt sp q w = (Inr res, \<lparr> log = log w @ [Search q 3], remote = s1 \<rparr>)"
    by (simp add: search_attempt_def call_def)
next
  assume "sp_search sp q 3 (remote w) = (Inl (SpotifyException 429 (Headers h)), s1) \<and>
    (h = Seconds r \<or> h = Absent \<and> r = 2) \<and> 0 \<le> r + 1"
  then show "search_attempt sp q w =
        (fst (sp_search sp q 3 (sp_sleep sp (r + 1) s1)),
         \<lparr> log = log w @ [Search q 3, Sleep (r + 1), Search q 3],
           remote = snd (sp_search sp q 3 (sp_sleep sp (r + 1) s1)) \<rparr>)"
    by (auto simp: search_attempt_def call_def sleep_def split: prod.splits)
next
  assume "sp_search sp q 3 (remote w) = (Inl e, s1) \<and> (\<forall>hd. e \<noteq> SpotifyException 429 hd)"
  then show "search_attempt sp q w = (Inl e, \<lparr> log = log w @ [Search q 3], remote = s1 \<rparr>)"
    by (cases e) (auto simp: search_attempt_def call_def)
next
  assume "search_attempt sp q w = (Inl e, w1)"
  then show "search_loop tx sp nm ar (q # qs) w = (Inl e, w1)" by simp
next
  assume "search_track tx sp (name it) (artist it) (year it) w = (Inl e, w1)"
  then show "match_loop tx sp (it # items) found_ids misses w = (Inl e, w1)" by simp
next
  assume "match_loop tx sp items [] [] w = (Inl e, w1)"
  then show "import_tracks tx sp a items pid w = (Inl e, w1)"
    by (simp add: import_tracks_def)
qed

theorem search_attempt_retry_witness:
  "search_attempt (scripted_spotify [Inl (SpotifyException 429 (Headers (Seconds 5))), Inr [orig]])
     ''q'' w0 =
     (Inr [orig], \<lparr> log = [Search ''q'' 3, Sleep 6, Search ''q'' 3], remote = 2 \<rparr>) \<and>
   search_attempt (scripted_spotify [Inl (SpotifyException 500 (Headers Absent)), Inr [orig]])
     ''q'' w0 =
     (Inl (SpotifyException 500 (Headers Absent)), \<lparr> log = [Search ''q'' 3], remote = 1 \<rparr>)"
proof -
  let ?sp = "scripted_spotify [Inl (SpotifyException 429 (Headers (Seconds 5))), Inr [orig]]"
  let ?sp' = "scripted_spotify [Inl (SpotifyException 500 (Headers Absent)), Inr [orig]]"
  have h1: "sp_search ?sp ''q'' 3 (remote w0) = (Inl (SpotifyException 429 (Headers (Seconds 5))), 1)"
    by (simp add: scripted_spotify_def w0_def)
  have h2: "sp_search ?sp' ''q'' 3 (remote w0) = (Inl (SpotifyException 500 (Headers Absent)), 1)"
    by (simp add: scripted_spotify_def w0_def)
  have a: "search_attempt ?sp ''q'' w0 =
        (fst (sp_search ?sp ''q'' 3 (sp_sleep ?sp (5 + 1) 1)),
         \<lparr> log = log w0 @ [Search ''q'' 3, Sleep (5 + 1), Search ''q'' 3],
           remote = snd (sp_search ?sp ''q'' 3 (sp_sleep ?sp (5 + 1) 1)) \<rparr>)"
    using search_attempt_retry [of ?sp "''q''" w0 _ 1 "Seconds 5" 5] h1 by simp
  have b: "search_attempt ?sp' ''q'' w0 =
        (Inl (SpotifyException 500 (Headers Absent)), \<lparr> log = log w0 @ [Search ''q'' 3], remote = 1 \<rparr>)"
    using search_attempt_retry [of ?sp' "''q''" w0 _ 1 _ _ "SpotifyException 500 (Headers Absent)"] h2
    by simp
  show ?thesis
    using a b by (simp add: scripted_spotify_def w0_def)
qed

text \<open>
  C8 as stated fails: a rate-limit response whose retry interval is not an integer, or
  that carries no headers, ends the attempt with the exception of \<open>int()\<close> or of
  \<open>e.headers.get\<close> after one call, with no sleep and no second call.
\<close>

theorem search_attempt_retry_counterexample:
  "search_attempt (scripted_spotify [Inl (SpotifyException 429 (Headers Unparsable)), Inr [orig]])
     ''q'' w0 =
     (Inl ValueError, \<lparr> log = [Search ''q'' 3], remote = 1 \<rparr>) \<and>
   search_attempt (scripted_spotify [Inl (SpotifyException 429 NoHeaders), Inr [orig]])
     ''q'' w0 =
     (Inl AttributeError, \<lparr> log = [Search ''q'' 3], remote = 1 \<rparr>)"
  by (simp add: search_attempt_def call_def scripted_spotify_def w0_def)

text \<open>
  C4. When the matcher returns, it has issued the attempts for the first \<open>k\<close> of its
  queries, in order. The queries are the year query, the strict query and the loose query
  when the record has a year other than 0, and the strict query and the loose query when
  it has no year (or the year 0, which \<open>if year:\<close> takes for none): three at most, the year
  query first and only when a year is present. Every attempt but the last returned no
  candidate. The result is the specification's choice among the candidates of the last
  attempt: an exact match's id, else the first candidate's id. The record is unmatched
  exactly when every issued attempt returned no candidate, and then all queries were
  issued.
\<close>

theorem search_track_attempts:
  "search_track tx sp nm ar yr w = (Inr r, w') \<Longrightarrow>
   ((\<exists>y. yr = Some y \<and> queries nm ar yr = [q_year nm ar y, q_strict nm ar, q_loose nm ar]) \<or>
    queries nm ar yr = [q_strict nm ar, q_loose nm ar]) \<and>
   (\<exists>k rs. k \<le> length (queries nm ar yr) \<and>
      run_attempts sp (take k (queries nm ar yr)) w = (Inr rs, w') \<and> length rs = k \<and>
      (\<forall>items \<in> set (butlast rs). items = []) \<and>
      (r = None \<longleftrightarrow> k = length (queries nm ar yr) \<and> (\<forall>items \<in> set rs. items = [])) \<and>
      (r = None \<longleftrightarrow> (\<forall>items \<in> set rs. items = [])) \<and>
      r = (if rs = [] then None else spec_choice tx nm ar (last rs))) \<and>
   (\<forall>y. yr = Some y \<and> y \<noteq> 0 \<longrightarrow>
      queries nm ar yr = [q_year nm ar y, q_strict nm ar, q_loose nm ar]) \<and>
   (yr = None \<or> yr = Some 0 \<longrightarrow> queries nm ar yr = [q_strict nm ar, q_loose nm ar])"
proof -
  assume a: "search_track tx sp nm ar yr w = (Inr r, w')"
  have q: "(\<exists>y. yr = Some y \<and> queries nm ar yr = [q_year nm ar y, q_strict nm ar, q_loose nm ar]) \<or>
    queries nm ar yr = [q_strict nm ar, q_loose nm ar]"
    by (cases yr) (auto simp: queries_def)
  have "search_loop tx sp nm ar (queries nm ar yr) w = (Inr r, w')"
    using a by (simp add: search_track_def)
  from search_loop_trace [OF this] obtain k rs where
    k: "k \<le> length (queries nm ar yr)"
    and run: "run_attempts sp (take k (queries nm ar yr)) w = (Inr rs, w')"
    and len: "length rs = k"
    and bl: "\<forall>items \<in> set (butlast rs). items = []"
    and none: "r = None \<longleftrightarrow> k = length (queries nm ar yr) \<and> (\<forall>items \<in> set rs. items = [])"
    and r: "r = (if rs = [] then None else spec_choice tx nm ar (last rs))"
    by blast
  have none': "r = None \<longleftrightarrow> (\<forall>items \<in> set rs. items = [])"
  proof
    assume "r = None"
    then show "\<forall>items \<in> set rs. items = []" using none by simp
  next
    assume e: "\<forall>items \<in> set rs. items = []"
    show "r = None"
    proof (cases "rs = []")
      case True
      then show ?thesis using r by simp
    next
      case False
      then have "last rs = []" using e last_in_set by blast
      then show ?thesis using r False spec_choice_None [of tx nm ar "last rs"] by simp
    qed
  qed
  have ex: "\<exists>k rs. k \<le> length (queries nm ar yr) \<and>
      run_attempts sp (take k (queries nm ar yr)) w = (Inr rs, w') \<and> length rs = k \<and>
      (\<forall>items \<in> set (butlast rs). items = []) \<and>
      (r = None \<longleftrightarrow> k = length (queries nm ar yr) \<and> (\<forall>items \<in> set rs. items = [])) \<and>
      (r = None \<longleftrightarrow> (\<forall>items \<in> set rs. items = [])) \<and>
      r = (if rs = [] then None else spec_choice tx nm ar (last rs))"
    using k run len bl none none' r by (intro exI [of _ k] exI [of _ rs] conjI)
  have y1: "\<forall>y. yr = Some y \<and> y \<noteq> 0 \<longrightarrow>
      queries nm ar yr = [q_year nm ar y, q_strict nm ar, q_loose nm ar]"
    by (simp add: queries_def)
  have y2: "yr = None \<or> yr = Some 0 \<longrightarrow> queries nm ar yr = [q_strict nm ar, q_loose nm ar]"
    by (auto simp: queries_def)
  show ?thesis using q ex y1 y2 by (intro conjI)
qed

theorem search_track_attempts_witness:
  "search_track ascii_ops (scripted_spotify [Inr [], Inr [], Inr [cover]]) ''Yesterday'' ''The Beatles''
     (Some 1965) w0 =
     (Inr (Some ''cover''),
      \<lparr> log = [Search (q_year ''Yesterday'' ''The Beatles'' 1965) 3,
               Search (q_strict ''Yesterday'' ''The Beatles'') 3,
               Search (q_loose ''Yesterday'' ''The Beatles'') 3], remote = 3 \<rparr>) \<and>
   ((\<exists>y. Some 1965 = Some y \<and>
         queries ''Yesterday'' ''The Beatles'' (Some 1965) =
           [q_year ''Yesterday'' ''The Beatles'' y, q_strict ''Yesterday'' ''The Beatles'',
            q_loose ''Yesterday'' ''The Beatles'']) \<or>
    queries ''Yesterday'' ''The Beatles'' (Some 1965) =
      [q_strict ''Yesterday'' ''The Beatles'', q_loose ''Yesterday'' ''The Beatles''])"
proof -
  let ?sp = "scripted_spotify [Inr [], Inr [], Inr [cover]]"
  have q: "queries ''Yesterday'' ''The Beatles'' (Some 1965) =
      [q_year ''Yesterday'' ''The Beatles'' 1965, q_strict ''Yesterday'' ''The Beatles'',
       q_loose ''Yesterday'' ''The Beatles'']"
    by (simp add: queries_def)
  have h: "search_track ascii_ops ?sp ''Yesterday'' ''The Beatles'' (Some 1965) w0 =
     (Inr (Some ''cover''),
      \<lparr> log = [Search (q_year ''Yesterday'' ''The Beatles'' 1965) 3,
               Search (q_strict ''Yesterday'' ''The Beatles'') 3,
               Search (q_loose ''Yesterday'' ''The Beatles'') 3], remote = 3 \<rparr>)"
    unfolding search_track_def q
    by (simp add: search_attempt_def call_def scripted_spotify_def w0_def cover_def
        exact_match_def)
  have c: "(\<exists>y. Some 1965 = Some y \<and>
         queries ''Yesterday'' ''The Beatles'' (Some 1965) =
           [q_year ''Yesterday'' ''The Beatles'' y, q_strict ''Yesterday'' ''The Beatles'',
            q_loose ''Yesterday'' ''The Beatles'']) \<or>
    queries ''Yesterday'' ''The Beatles'' (Some 1965) =
      [q_strict ''Yesterday'' ''The Beatles'', q_loose ''Yesterday'' ''The Beatles'']"
    using search_track_attempts [OF h] by (rule conjunct1)
  show ?thesis using h c by (rule conjI)
qed

text \<open>
  C3, as the code has it. If every attempt before the attempt for a query \<open>q\<close> returned no
  candidate, and the candidates of the attempt for \<open>q\<close> contain an exact match, then the
  matcher returns the id of the first exact match among them, whatever other candidates
  that attempt returned and whatever the later queries would return.
\<close>

theorem search_track_first_exact:
  "queries nm ar yr = pre @ q # post \<Longrightarrow> run_attempts sp pre w = (Inr rs, w1) \<Longrightarrow>
   \<forall>items \<in> set rs. items = [] \<Longrightarrow> search_attempt sp q w1 = (Inr items, w2) \<Longrightarrow>
   find (exact_match tx nm ar) items = Some it \<Longrightarrow>
   search_track tx sp nm ar yr w = (Inr (Some (sr_id it)), w2) \<and> exact_match tx nm ar it \<and>
   it \<in> set items"
proof -
  assume q: "queries nm ar yr = pre @ q # post" and run: "run_attempts sp pre w = (Inr rs, w1)"
    and empty: "\<forall>items \<in> set rs. items = []" and att: "search_attempt sp q w1 = (Inr items, w2)"
    and f: "find (exact_match tx nm ar) items = Some it"
  have "search_track tx sp nm ar yr w = (Inr (Some (sr_id it)), w2)"
    using search_loop_exact [OF run empty att f] q by (simp add: search_track_def)
  moreover have "exact_match tx nm ar it \<and> it \<in> set items"
    using f by (auto simp: find_Some_iff)
  ultimately show ?thesis by simp
qed

theorem search_track_first_exact_witness:
  "search_track ascii_ops (scripted_spotify [Inr [], Inr [cover, orig]]) ''Yesterday'' ''The Beatles'' None w0 =
     (Inr (Some ''orig''),
      \<lparr> log = [Search (q_strict ''Yesterday'' ''The Beatles'') 3,
               Search (q_loose ''Yesterday'' ''The Beatles'') 3], remote = 2 \<rparr>) \<and>
   exact_match ascii_ops ''Yesterday'' ''The Beatles'' orig"
proof -
  let ?sp = "scripted_spotify [Inr [], Inr [cover, orig]]"
  let ?w1 = "\<lparr> log = [Search (q_strict ''Yesterday'' ''The Beatles'') 3], remote = Suc 0 \<rparr>"
  let ?w2 = "\<lparr> log = [Search (q_strict ''Yesterday'' ''The Beatles'') 3,
               Search (q_loose ''Yesterday'' ''The Beatles'') 3], remote = 2 \<rparr>"
  have q: "queries ''Yesterday'' ''The Beatles'' None =
      [q_strict ''Yesterday'' ''The Beatles''] @ q_loose ''Yesterday'' ''The Beatles'' # []"
    by (simp add: queries_def)
  have run: "run_attempts ?sp [q_strict ''Yesterday'' ''The Beatles''] w0 = (Inr [[]], ?w1)"
    by (simp add: search_attempt_def call_def scripted_spotify_def w0_def)
  have empty: "\<forall>items \<in> set [[] :: search_item list]. items = []" by simp
  have att: "search_attempt ?sp (q_loose ''Yesterday'' ''The Beatles'') ?w1 = (Inr [cover, orig], ?w2)"
    by (simp add: search_attempt_def call_def scripted_spotify_def)
  have f: "find (exact_match ascii_ops ''Yesterday'' ''The Beatles'') [cover, orig] = Some orig"
    by code_simp
  show ?thesis
    using search_track_first_exact [OF q run empty att f] by (simp add: orig_def)
qed

text \<open>
  C3 as stated fails: the strict query returns one candidate that is no exact match, the
  loose query would return an exact match, and the matcher returns the first.
\<close>

theorem search_track_exact_counterexample:
  "fst (run_attempts (scripted_spotify [Inr [cover], Inr [orig]])
          (queries ''Yesterday'' ''The Beatles'' None) w0) = Inr [[cover], [orig]] \<and>
   exact_match ascii_ops ''Yesterday'' ''The Beatles'' orig \<and>
   \<not> exact_match ascii_ops ''Yesterday'' ''The Beatles'' cover \<and>
   fst (search_track ascii_ops (scripted_spotify [Inr [cover], Inr [orig]])
          ''Yesterday'' ''The Beatles'' None w0) = Inr (Some (sr_id cover)) \<and>
   sr_id cover \<noteq> sr_id orig"
  by code_simp

section \<open>Batching\<close>

lemma chunks_concat: "concat (chunks xs i) = drop i xs"
proof (induction xs i rule: chunks.induct)
  case (1 xs i)
  show ?case
  proof (cases "i < length xs")
    case True
    have "concat (chunks xs i) = take 100 (drop i xs) @ drop (i + 100) xs"
      using True "1.IH" by (subst chunks.simps) simp
    also have "\<dots> = take 100 (drop i xs) @ drop 100 (drop i xs)"
      by (simp add: add.commute)
    also have "\<dots> = drop i xs" by (rule append_take_drop_id)
    finally show ?thesis .
  next
    case False
    then show ?thesis by (subst chunks.simps) simp
  qed
qed

lemma chunks_length: "length (chunks xs i) = (length xs - i + 99) div 100"
proof (induction xs i rule: chunks.induct)
  case (1 xs i)
  show ?case
  proof (cases "i < length xs")
    case True
    have "length (chunks xs i) = Suc ((length xs - (i + 100) + 99) div 100)"
      using True "1.IH" by (subst chunks.simps) simp
    also have "\<dots> = (length xs - i + 99) div 100"
      using True by (cases "i + 100 \<le> length xs") auto
    finally show ?thesis .
  next
    case False
    then show ?thesis by (subst chunks.simps) simp
  qed
qed

lemma chunks_bound: "c \<in> set (chunks xs i) \<Longrightarrow> c \<noteq> [] \<and> length c \<le> 100"
proof (induction xs i rule: chunks.induct)
  case (1 xs i)
  show ?case
  proof (cases "i < length xs")
    case True
    then have "c = take 100 (drop i xs) \<or> c \<in> set (chunks xs (i + 100))"
      using "1.prems" by (subst (asm) chunks.simps) simp
    then show ?thesis using True "1.IH" by auto
  next
    case False
    then show ?thesis using "1.prems" by (subst (asm) chunks.simps) simp
  qed
qed

lemma for_chunks_log:
  "\<forall>c w r w1. f c w = (r, w1) \<longrightarrow> log w1 = log w @ [ev c] \<Longrightarrow>
   for_chunks f xs i w = (Inr u, w') \<Longrightarrow> log w' = log w @ map ev (chunks xs i)"
proof (induction f xs i w rule: for_chunks.induct)
  case (1 f xs i w)
  show ?case
  proof (cases "i < length xs")
    case True
    obtain r w1 where step: "f (take 100 (drop i xs)) w = (r, w1)"
      by (cases "f (take 100 (drop i xs)) w")
    have unf: "for_chunks f xs i w =
        (case r of Inl e \<Rightarrow> (Inl e, w1) | Inr v \<Rightarrow> for_chunks f xs (i + 100) w1)"
      using True step by (subst for_chunks.simps) (simp split: sum.splits)
    obtain v where r: "r = Inr v"
      using unf "1.prems"(2) by (cases r) auto
    have rest: "for_chunks f xs (i + 100) w1 = (Inr u, w')"
      using unf r "1.prems"(2) by simp
    have "log w' = log w1 @ map ev (chunks xs (i + 100))"
      using "1.IH" [OF True _ _ "1.prems"(1) rest] step r by simp
    moreover have "log w1 = log w @ [ev (take 100 (drop i xs))]"
      using "1.prems"(1) step by blast
    ultimately show ?thesis using True by (subst chunks.simps) simp
  next
    case False
    then have "w' = w" using "1.prems"(2) by (subst (asm) for_chunks.simps) simp
    then show ?thesis using False by (subst chunks.simps) simp
  qed
qed

lemma call_log: "call ev oper w = (r, w1) \<Longrightarrow> log w1 = log w @ [ev]"
  by (auto simp: call_def split: prod.splits)

text \<open>
  C6. When the write-back returns, the calls it has added to the log are one
  \<open>playlist_add_items\<close> call per batch; for \<open>M\<close> ids there are \<open>ceil(M / 100)\<close> batches,
  none empty and none longer than 100, and the batches in call order concatenate to the
  list of ids.
\<close>

theorem add_tracks_in_batches_calls:
  "add_tracks_in_batches sp playlist_id track_ids w = (Inr u, w') \<Longrightarrow>
   (\<exists>bs. log w' = log w @ map (PlaylistAddItems playlist_id) bs \<and>
      length bs = (length track_ids + 99) div 100 \<and>
      (\<forall>b \<in> set bs. b \<noteq> [] \<and> length b \<le> 100) \<and>
      concat bs = track_ids)"
proof -
  assume a: "add_tracks_in_batches sp playlist_id track_ids w = (Inr u, w')"
  have "log w' = log w @ map (PlaylistAddItems playlist_id) (chunks track_ids 0)"
    using a unfolding add_tracks_in_batches_def
    by (rule for_chunks_log [rotated]) (simp add: call_log)
  moreover have "length (chunks track_ids 0) = (length track_ids + 99) div 100"
    by (simp add: chunks_length)
  moreover have "\<forall>b \<in> set (chunks track_ids 0). b \<noteq> [] \<and> length b \<le> 100"
    using chunks_bound by blast
  moreover have "concat (chunks track_ids 0) = track_ids"
    by (simp add: chunks_concat)
  ultimately show ?thesis by (intro exI [of _ "chunks track_ids 0"]) simp
qed

theorem add_tracks_in_batches_calls_witness:
  "add_tracks_in_batches (scripted_spotify []) ''p'' many_ids w0 =
     (Inr (), \<lparr> log = [PlaylistAddItems ''p'' (replicate 100 ''a''),
                        PlaylistAddItems ''p'' (replicate 100 ''b''),
                        PlaylistAddItems ''p'' [''c'', ''d'']], remote = 0 \<rparr>) \<and>
   (length many_ids + 99) div 100 = 3"
proof -
  have h: "add_tracks_in_batches (scripted_spotify []) ''p'' many_ids w0 =
     (Inr (), \<lparr> log = [PlaylistAddItems ''p'' (replicate 100 ''a''),
                        PlaylistAddItems ''p'' (replicate 100 ''b''),
                        PlaylistAddItems ''p'' [''c'', ''d'']], remote = 0 \<rparr>)"
    by (simp add: add_tracks_in_batches_def for_chunks.simps call_def scripted_spotify_def
        w0_def many_ids_def)
  from add_tracks_in_batches_calls [OF h] obtain bs where
    "length bs = (length many_ids + 99) div 100"
    and "log \<lparr> log = [PlaylistAddItems ''p'' (replicate 100 ''a''),
                        PlaylistAddItems ''p'' (replicate 100 ''b''),
                        PlaylistAddItems ''p'' [''c'', ''d'']], remote = (0::nat) \<rparr>
         = log w0 @ map (PlaylistAddItems ''p'') bs"
    by blast
  then have "(length many_ids + 99) div 100 = 3"
    by (auto simp: w0_def dest: arg_cong [where f = length])
  with h show ?thesis by simp
qed

section \<open>Clearing on the reference service\<close>

lemma collect_uris_append: "collect_uris (xs @ ys) = collect_uris xs @ collect_uris ys"
  by (simp add: collect_uris_def)

lemma collect_uris_filter: "collect_uris items = map (\<lambda>it. get_str (item_uri it)) (filter has_uri items)"
  by (induction items) (auto simp: collect_uris_def has_uri_def get_str_def split: option.splits)

lemma read_offsets_length: "length (read_offsets n 0) = max 1 ((n + 99) div 100)"
proof -
  have "length (read_offsets n k) = max 1 ((n - k + 99) div 100)" for k
  proof (induction n k rule: read_offsets.induct)
    case (1 n k)
    show ?case
    proof (cases "k + 100 < n")
      case True
      have "length (read_offsets n k) = Suc (max 1 ((n - (k + 100) + 99) div 100))"
        using True "1.IH" by (subst read_offsets.simps) simp
      also have "\<dots> = max 1 ((n - k + 99) div 100)"
        using True by auto
      finally show ?thesis .
    next
      case False
      then show ?thesis by (subst read_offsets.simps) auto
    qed
  qed
  from this [of 0] show ?thesis by simp
qed

lemma read_loop_ref_aux:
  "n = length (items_of (remote w) pid) \<Longrightarrow>
   read_loop ref_spotify pid uris k w =
     Some (Inr (uris @ collect_uris (drop k (items_of (remote w) pid))),
           \<lparr> log = log w @ map (PlaylistItems pid 100) (read_offsets n k),
             remote = remote w \<rparr>)"
proof (induction n k arbitrary: uris w rule: read_offsets.induct)
  case (1 n k)
  let ?items = "items_of (remote w) pid"
  let ?w1 = "\<lparr> log = log w @ [PlaylistItems pid 100 k], remote = remote w \<rparr>"
  have n: "n = length ?items" using "1.prems" .
  have c: "call (PlaylistItems pid 100 k) (sp_playlist_items ref_spotify pid 100 k) w =
     (Inr \<lparr> page_items = take 100 (drop k ?items),
             page_next = (if k + 100 < length ?items then Some ''next'' else None) \<rparr>, ?w1)"
    by (simp add: call_def ref_spotify_def)
  show ?case
  proof (cases "k + 100 < n")
    case True
    then have ne: "take 100 (drop k ?items) \<noteq> []" using n by auto
    have "read_loop ref_spotify pid uris k w =
       read_loop ref_spotify pid (uris @ collect_uris (take 100 (drop k ?items))) (k + 100) ?w1"
      using True ne n
      by (subst read_loop.simps) (simp add: c truthy_opt_def truthy_def)
    also have "\<dots> = Some (Inr ((uris @ collect_uris (take 100 (drop k ?items))) @
                          collect_uris (drop (k + 100) ?items)),
           \<lparr> log = log ?w1 @ map (PlaylistItems pid 100) (read_offsets n (k + 100)),
             remote = remote w \<rparr>)"
      using "1.IH" [OF True, of ?w1] n by simp
    finally have "read_loop ref_spotify pid uris k w =
        Some (Inr (uris @ (collect_uris (take 100 (drop k ?items)) @
                          collect_uris (drop (k + 100) ?items))),
           \<lparr> log = log w @ PlaylistItems pid 100 k #
                     map (PlaylistItems pid 100) (read_offsets n (k + 100)),
             remote = remote w \<rparr>)" by simp
    moreover have "collect_uris (take 100 (drop k ?items)) @ collect_uris (drop (k + 100) ?items)
        = collect_uris (drop k ?items)"
      by (metis add.commute append_take_drop_id collect_uris_append drop_drop)
    moreover have "read_offsets n k = k # read_offsets n (k + 100)"
      using True by (subst read_offsets.simps) simp
    ultimately show ?thesis by simp
  next
    case False
    have ro: "read_offsets n k = [k]"
      using False by (subst read_offsets.simps) simp
    have t: "take 100 (drop k ?items) = drop k ?items"
      using False n by simp
    show ?thesis
      using False n ro t
      by (subst read_loop.simps) (auto simp: c truthy_opt_def collect_uris_def)
  qed
qed

lemma update_items_comp:
  "update_items pid f (update_items pid g s) = update_items pid (f \<circ> g) s"
  by (simp add: update_items_def comp_def)

lemma update_items_id: "update_items pid (\<lambda>its. its) s = s"
proof -
  have "map (\<lambda>p. if rp_id p = pid then p \<lparr> rp_items := rp_items p \<rparr> else p) (rs_library s)
      = rs_library s"
    by (induction "rs_library s") (simp_all add: map_idI)
  then show ?thesis by (simp add: update_items_def)
qed

lemma find_update_items:
  "find (\<lambda>p. rp_id p = pid)
     (map (\<lambda>p. if rp_id p = pid then p \<lparr> rp_items := f (rp_items p) \<rparr> else p) lib) =
   map_option (\<lambda>p. p \<lparr> rp_items := f (rp_items p) \<rparr>) (find (\<lambda>p. rp_id p = pid) lib)"
  by (induction lib) auto

lemma items_of_update_items:
  "items_of s pid \<noteq> [] \<or> f [] = [] \<Longrightarrow> items_of (update_items pid f s) pid = f (items_of s pid)"
  by (auto simp: items_of_def update_items_def find_update_items split: option.splits)

lemma removable_Nil: "removable [] it = False"
  by (simp add: removable_def split: option.splits)

lemma removable_append: "removable (xs @ ys) it = (removable xs it \<or> removable ys it)"
  by (auto simp: removable_def split: option.splits)

lemma for_chunks_ref_remove:
  "for_chunks (\<lambda>chunk. call (PlaylistRemoveAll pid chunk)
                 (sp_playlist_remove_all_occurrences_of_items ref_spotify pid chunk)) uris i w =
     (Inr (), \<lparr> log = log w @ map (PlaylistRemoveAll pid) (chunks uris i),
                remote = update_items pid (filter (\<lambda>it. \<not> removable (drop i uris) it))
                           (remote w) \<rparr>)"
proof (induction uris i arbitrary: w rule: chunks.induct)
  case (1 xs i)
  let ?f = "\<lambda>chunk. call (PlaylistRemoveAll pid chunk)
                 (sp_playlist_remove_all_occurrences_of_items ref_spotify pid chunk)"
  show ?case
  proof (cases "i < length xs")
    case True
    let ?c = "take 100 (drop i xs)"
    let ?w1 = "\<lparr> log = log w @ [PlaylistRemoveAll pid ?c],
                remote = update_items pid (filter (\<lambda>it. \<not> removable ?c it)) (remote w) \<rparr>"
    have step: "?f ?c w = (Inr (), ?w1)"
      by (simp add: call_def ref_spotify_def)
    have "for_chunks ?f xs i w = for_chunks ?f xs (i + 100) ?w1"
      using True step by (subst for_chunks.simps) simp
    also have "\<dots> = (Inr (), \<lparr> log = log ?w1 @ map (PlaylistRemoveAll pid) (chunks xs (i + 100)),
                remote = update_items pid (filter (\<lambda>it. \<not> removable (drop (i + 100) xs) it))
                           (remote ?w1) \<rparr>)"
      using "1.IH" [OF True, of ?w1] .
    finally have a: "for_chunks ?f xs i w =
        (Inr (), \<lparr> log = log w @ PlaylistRemoveAll pid ?c #
                        map (PlaylistRemoveAll pid) (chunks xs (i + 100)),
                remote = update_items pid (filter (\<lambda>it. \<not> removable (drop (i + 100) xs) it))
                           (update_items pid (filter (\<lambda>it. \<not> removable ?c it)) (remote w)) \<rparr>)"
      by simp
    have d: "drop i xs = ?c @ drop (i + 100) xs"
      by (metis add.commute append_take_drop_id drop_drop)
    have "filter (\<lambda>it. \<not> removable (drop (i + 100) xs) it) \<circ> filter (\<lambda>it. \<not> removable ?c it)
        = filter (\<lambda>it. \<not> removable (drop i xs) it)"
      by (subst d) (auto simp: removable_append fun_eq_iff conj_commute)
    then have b: "update_items pid (filter (\<lambda>it. \<not> removable (drop (i + 100) xs) it))
                           (update_items pid (filter (\<lambda>it. \<not> removable ?c it)) (remote w))
        = update_items pid (filter (\<lambda>it. \<not> removable (drop i xs) it)) (remote w)"
      by (simp add: update_items_comp)
    have c: "chunks xs i = ?c # chunks xs (i + 100)"
      using True by (subst chunks.simps) simp
    show ?thesis using a b c by simp
  next
    case False
    then have "chunks xs i = []" by (subst chunks.simps) simp
    moreover have "for_chunks ?f xs i w = (Inr (), w)"
      using False by (subst for_chunks.simps) simp
    ultimately show ?thesis
      using False by (simp add: removable_Nil update_items_id)
  qed
qed

lemma collect_uris_set:
  "u \<in> set (collect_uris items) \<longleftrightarrow> (\<exists>it \<in> set items. item_uri it = Some u \<and> u \<noteq> [])"
proof (induction items)
  case Nil
  show ?case by (simp add: collect_uris_def)
next
  case (Cons a items)
  have "collect_uris (a # items) =
      (case item_uri a of None \<Rightarrow> [] | Some v \<Rightarrow> if truthy v then [v] else []) @
      collect_uris items"
    by (simp add: collect_uris_def)
  then show ?case
    using Cons.IH by (cases "item_uri a") (auto simp: truthy_def)
qed

lemma removable_collected:
  "it \<in> set items \<Longrightarrow> removable (collect_uris items) it = has_uri it"
  by (auto simp: removable_def has_uri_def collect_uris_set truthy_def split: option.splits)

lemma remaining_items:
  "filter (\<lambda>it. \<not> removable (collect_uris items) it) items = filter (\<lambda>it. \<not> has_uri it) items"
  by (rule filter_cong) (simp_all add: removable_collected)

lemma clear_playlist_ref_run:
  "clear_playlist ref_spotify pid w =
     Some (Inr (),
       \<lparr> log = log w @
           map (PlaylistItems pid 100) (read_offsets (length (items_of (remote w) pid)) 0) @
           map (PlaylistRemoveAll pid) (chunks (collect_uris (items_of (remote w) pid)) 0),
         remote = update_items pid
                    (filter (\<lambda>it. \<not> removable (collect_uris (items_of (remote w) pid)) it))
                    (remote w) \<rparr>)"
  by (simp add: clear_playlist_def read_loop_ref_aux [OF refl] for_chunks_ref_remove)

lemma clear_playlist_ref_remaining:
  "items_of (update_items pid
               (filter (\<lambda>it. \<not> removable (collect_uris (items_of s pid)) it)) s) pid
     = filter (\<lambda>it. \<not> has_uri it) (items_of s pid)"
  by (simp add: items_of_update_items remaining_items)

lemma ex_items_p1: "items_of ex_state ''p1'' =
    [Item (Some (Track (Some ''spotify:track:1''))),
     Item (Some (Track (Some ''spotify:track:2''))),
     Item (Some (Track (Some ''spotify:track:1'')))]"
  by (simp add: items_of_def ex_state_def)

lemma ex_items_p2: "items_of ex_state ''p2'' = [Item None, Item (Some (Track None))]"
  by (simp add: items_of_def ex_state_def)

lemma ex_items_p3: "items_of ex_state ''p3'' =
    [Item (Some (Track (Some ''spotify:track:7''))), Item None, Item (Some (Track (Some [])))]"
  by (simp add: items_of_def ex_state_def)

lemma read_offsets_small: "n \<le> 100 \<Longrightarrow> read_offsets n 0 = [0]"
  by (subst read_offsets.simps) simp

lemma chunks_small: "xs \<noteq> [] \<Longrightarrow> length xs \<le> 100 \<Longrightarrow> chunks xs 0 = [xs]"
  by (subst chunks.simps, subst chunks.simps) simp

lemma filter_True_id: "filter (\<lambda>it. True) = (\<lambda>its. its)"
  by (simp add: fun_eq_iff)

lemma chunks_Nil: "chunks [] i = []"
  by (subst chunks.simps) simp

text \<open>
  C7, as the code has it. On the reference service, clearing a playlist of \<open>N\<close> items reads
  it in pages of 100 from offset 0 while a continuation is given (one read for an empty
  playlist, \<open>ceil(N / 100)\<close> reads otherwise), collects the uris of the items that carry a
  non-empty one (\<open>K\<close> of them), and issues \<open>ceil(K / 100)\<close> removal calls, none empty and
  none longer than 100, that concatenate to the collected uris. When every item carries a
  non-empty uri, \<open>K = N\<close> and the playlist is empty afterwards.
\<close>

theorem clear_playlist_ref_calls:
  "(\<exists>s'. clear_playlist ref_spotify pid w =
      Some (Inr (),
        \<lparr> log = log w @
            map (PlaylistItems pid 100) (read_offsets (length (items_of (remote w) pid)) 0) @
            map (PlaylistRemoveAll pid) (chunks (collect_uris (items_of (remote w) pid)) 0),
          remote = s' \<rparr>) \<and>
      (list_all has_uri (items_of (remote w) pid) \<longrightarrow> items_of s' pid = [])) \<and>
   length (read_offsets (length (items_of (remote w) pid)) 0) =
     max 1 ((length (items_of (remote w) pid) + 99) div 100) \<and>
   length (collect_uris (items_of (remote w) pid)) =
     length (filter has_uri (items_of (remote w) pid)) \<and>
   length (chunks (collect_uris (items_of (remote w) pid)) 0) =
     (length (collect_uris (items_of (remote w) pid)) + 99) div 100 \<and>
   (\<forall>b \<in> set (chunks (collect_uris (items_of (remote w) pid)) 0). b \<noteq> [] \<and> length b \<le> 100) \<and>
   concat (chunks (collect_uris (items_of (remote w) pid)) 0) =
     collect_uris (items_of (remote w) pid) \<and>
   (list_all has_uri (items_of (remote w) pid) \<longrightarrow>
      length (collect_uris (items_of (remote w) pid)) = length (items_of (remote w) pid))"
proof -
  let ?items = "items_of (remote w) pid"
  let ?s' = "update_items pid (filter (\<lambda>it. \<not> removable (collect_uris ?items) it)) (remote w)"
  have rem: "items_of ?s' pid = filter (\<lambda>it. \<not> has_uri it) ?items"
    by (rule clear_playlist_ref_remaining)
  have all: "list_all has_uri ?items \<Longrightarrow> filter (\<lambda>it. \<not> has_uri it) ?items = []"
    by (simp add: list_all_iff)
  have all': "list_all has_uri ?items \<Longrightarrow> filter has_uri ?items = ?items"
    by (simp add: list_all_iff)
  have 1: "\<exists>s'. clear_playlist ref_spotify pid w =
      Some (Inr (),
        \<lparr> log = log w @
            map (PlaylistItems pid 100) (read_offsets (length ?items) 0) @
            map (PlaylistRemoveAll pid) (chunks (collect_uris ?items) 0),
          remote = s' \<rparr>) \<and>
      (list_all has_uri ?items \<longrightarrow> items_of s' pid = [])"
    using clear_playlist_ref_run [of pid w] rem all by (intro exI [of _ ?s']) simp
  have 2: "length (collect_uris ?items) = length (filter has_uri ?items)"
    by (simp add: collect_uris_filter)
  have 3: "\<forall>b \<in> set (chunks (collect_uris ?items) 0). b \<noteq> [] \<and> length b \<le> 100"
    using chunks_bound by blast
  have 4: "list_all has_uri ?items \<longrightarrow> length (collect_uris ?items) = length ?items"
    using 2 all' by simp
  have 5: "length (chunks (collect_uris ?items) 0) = (length (collect_uris ?items) + 99) div 100"
    by (simp add: chunks_length)
  have 6: "concat (chunks (collect_uris ?items) 0) = collect_uris ?items"
    by (simp add: chunks_concat)
  show ?thesis
    using 1 read_offsets_length 2 5 3 6 4 by (intro conjI)
qed

theorem clear_playlist_ref_calls_witness:
  "list_all has_uri (items_of ex_state ''p1'') \<and>
   (\<exists>s'. clear_playlist ref_spotify ''p1'' \<lparr> log = [], remote = ex_state \<rparr> =
      Some (Inr (),
        \<lparr> log = [PlaylistItems ''p1'' 100 0,
                 PlaylistRemoveAll ''p1''
                   [''spotify:track:1'', ''spotify:track:2'', ''spotify:track:1'']],
          remote = s' \<rparr>) \<and>
      items_of s' ''p1'' = [])"
proof -
  let ?w = "\<lparr> log = [], remote = ex_state \<rparr>"
  have h: "list_all has_uri (items_of ex_state ''p1'')"
    by (simp add: ex_items_p1 has_uri_def item_uri_def truthy_def)
  have u: "collect_uris (items_of ex_state ''p1'') =
      [''spotify:track:1'', ''spotify:track:2'', ''spotify:track:1'']"
    by (simp add: ex_items_p1 collect_uris_def item_uri_def truthy_def)
  have r: "read_offsets (length (items_of ex_state ''p1'')) 0 = [0]"
    by (simp add: ex_items_p1 read_offsets_small)
  have c: "chunks [''spotify:track:1'', ''spotify:track:2'', ''spotify:track:1''] 0 =
      [[''spotify:track:1'', ''spotify:track:2'', ''spotify:track:1'']]"
    by (simp add: chunks_small)
  from clear_playlist_ref_calls [of "''p1''" ?w] obtain s' where
    "clear_playlist ref_spotify ''p1'' ?w =
      Some (Inr (),
        \<lparr> log = log ?w @
            map (PlaylistItems ''p1'' 100) (read_offsets (length (items_of (remote ?w) ''p1'')) 0) @
            map (PlaylistRemoveAll ''p1'') (chunks (collect_uris (items_of (remote ?w) ''p1'')) 0),
          remote = s' \<rparr>)"
    and "list_all has_uri (items_of (remote ?w) ''p1'') \<longrightarrow> items_of s' ''p1'' = []"
    by blast
  then have "clear_playlist ref_spotify ''p1'' ?w =
      Some (Inr (),
        \<lparr> log = [PlaylistItems ''p1'' 100 0,
                 PlaylistRemoveAll ''p1''
                   [''spotify:track:1'', ''spotify:track:2'', ''spotify:track:1'']],
          remote = s' \<rparr>) \<and> items_of s' ''p1'' = []"
    using h u r c by simp
  then show ?thesis using h by blast
qed

text \<open>
  C7 as stated fails: a playlist of two items without uri is cleared with no removal call,
  where \<open>ceil(2 / 100) = 1\<close>, and still holds its two items.
\<close>

theorem clear_playlist_counterexample:
  "map_option (\<lambda>r. (fst r, log (snd r), items_of (remote (snd r)) ''p2''))
     (clear_playlist ref_spotify ''p2'' \<lparr> log = [], remote = ex_state \<rparr>) =
     Some (Inr (), [PlaylistItems ''p2'' 100 0], [Item None, Item (Some (Track None))]) \<and>
   length (items_of ex_state ''p2'') = 2 \<and> (2 + 99) div 100 = (1::nat)"
proof -
  have u: "collect_uris (items_of ex_state ''p2'') = []"
    by (simp add: ex_items_p2 collect_uris_def item_uri_def)
  have r: "read_offsets (length (items_of ex_state ''p2'')) 0 = [0]"
    by (simp add: ex_items_p2 read_offsets_small)
  have run: "clear_playlist ref_spotify ''p2'' \<lparr> log = [], remote = ex_state \<rparr> =
      Some (Inr (), \<lparr> log = [PlaylistItems ''p2'' 100 0], remote = ex_state \<rparr>)"
    using clear_playlist_ref_run [of "''p2''" "\<lparr> log = [], remote = ex_state \<rparr>"]
    by (simp add: u r chunks_Nil removable_Nil filter_True_id update_items_id)
  show ?thesis
    by (simp add: run ex_items_p2)
qed

text \<open>
  C10. A page item is collected exactly when it has a track object with a non-empty uri.
  On the reference service the removal batches carry the uris of those items, in order,
  and never the uri of another item; after the clear the playlist holds exactly the items
  without a track or without a non-empty uri.
\<close>

theorem clear_playlist_skips:
  "(\<exists>s'. clear_playlist ref_spotify pid w =
      Some (Inr (),
        \<lparr> log = log w @
            map (PlaylistItems pid 100) (read_offsets (length (items_of (remote w) pid)) 0) @
            map (PlaylistRemoveAll pid) (chunks (collect_uris (items_of (remote w) pid)) 0),
          remote = s' \<rparr>) \<and>
      items_of s' pid = filter (\<lambda>it. \<not> has_uri it) (items_of (remote w) pid)) \<and>
   concat (chunks (collect_uris (items_of (remote w) pid)) 0) =
     map (\<lambda>it. get_str (item_uri it)) (filter has_uri (items_of (remote w) pid)) \<and>
   (\<forall>it \<in> set (items_of (remote w) pid). \<not> has_uri it \<longrightarrow>
      (\<forall>b \<in> set (chunks (collect_uris (items_of (remote w) pid)) 0). \<forall>u \<in> set b.
         item_uri it \<noteq> Some u)) \<and>
   collect_uris page = map (\<lambda>it. get_str (item_uri it)) (filter has_uri page) \<and>
   (has_uri it \<longleftrightarrow> (\<exists>t u. track it = Some t \<and> uri t = Some u \<and> u \<noteq> []))"
proof -
  let ?items = "items_of (remote w) pid"
  let ?s' = "update_items pid (filter (\<lambda>it. \<not> removable (collect_uris ?items) it)) (remote w)"
  have 1: "\<exists>s'. clear_playlist ref_spotify pid w =
      Some (Inr (),
        \<lparr> log = log w @
            map (PlaylistItems pid 100) (read_offsets (length ?items) 0) @
            map (PlaylistRemoveAll pid) (chunks (collect_uris ?items) 0),
          remote = s' \<rparr>) \<and>
      items_of s' pid = filter (\<lambda>it. \<not> has_uri it) ?items"
    using clear_playlist_ref_run [of pid w] clear_playlist_ref_remaining [of pid "remote w"]
    by (intro exI [of _ ?s']) simp
  have 2: "concat (chunks (collect_uris ?items) 0) =
      map (\<lambda>it. get_str (item_uri it)) (filter has_uri ?items)"
    by (simp add: chunks_concat collect_uris_filter [symmetric])
  have 3: "\<forall>it \<in> set ?items. \<not> has_uri it \<longrightarrow>
      (\<forall>b \<in> set (chunks (collect_uris ?items) 0). \<forall>u \<in> set b. item_uri it \<noteq> Some u)"
  proof (intro ballI impI notI)
    fix it b u
    assume it: "it \<in> set ?items" and no: "\<not> has_uri it"
      and b: "b \<in> set (chunks (collect_uris ?items) 0)" and u: "u \<in> set b"
      and eq: "item_uri it = Some u"
    have "u \<in> set (concat (chunks (collect_uris ?items) 0))" using b u by auto
    then have "u \<in> set (collect_uris ?items)" by (simp add: chunks_concat)
    then have "u \<noteq> []" by (auto simp: collect_uris_set)
    with eq no show False by (simp add: has_uri_def truthy_def)
  qed
  have 4: "collect_uris page = map (\<lambda>it. get_str (item_uri it)) (filter has_uri page)"
    by (rule collect_uris_filter)
  have 5: "has_uri it \<longleftrightarrow> (\<exists>t u. track it = Some t \<and> uri t = Some u \<and> u \<noteq> [])"
    by (auto simp: has_uri_def item_uri_def truthy_def split: option.splits)
  show ?thesis using 1 2 3 4 5 by (intro conjI)
qed

theorem clear_playlist_skips_witness:
  "\<exists>s'. clear_playlist ref_spotify ''p3'' \<lparr> log = [], remote = ex_state \<rparr> =
      Some (Inr (),
        \<lparr> log = [PlaylistItems ''p3'' 100 0, PlaylistRemoveAll ''p3'' [''spotify:track:7'']],
          remote = s' \<rparr>) \<and>
      items_of s' ''p3'' = [Item None, Item (Some (Track (Some [])))]"
proof -
  let ?w = "\<lparr> log = [], remote = ex_state \<rparr>"
  have u: "collect_uris (items_of ex_state ''p3'') = [''spotify:track:7'']"
    by (simp add: ex_items_p3 collect_uris_def item_uri_def truthy_def)
  have r: "read_offsets (length (items_of ex_state ''p3'')) 0 = [0]"
    by (simp add: ex_items_p3 read_offsets_small)
  have c: "chunks [''spotify:track:7''] 0 = [[''spotify:track:7'']]"
    by (simp add: chunks_small)
  have f: "filter (\<lambda>it. \<not> has_uri it) (items_of ex_state ''p3'') =
      [Item None, Item (Some (Track (Some [])))]"
    by (simp add: ex_items_p3 has_uri_def item_uri_def truthy_def)
  from clear_playlist_skips [of "''p3''" ?w] obtain s' where
    "clear_playlist ref_spotify ''p3'' ?w =
      Some (Inr (),
        \<lparr> log = log ?w @
            map (PlaylistItems ''p3'' 100) (read_offsets (length (items_of (remote ?w) ''p3'')) 0) @
            map (PlaylistRemoveAll ''p3'') (chunks (collect_uris (items_of (remote ?w) ''p3'')) 0),
          remote = s' \<rparr>)"
    and "items_of s' ''p3'' = filter (\<lambda>it. \<not> has_uri it) (items_of (remote ?w) ''p3'')"
    by blast
  then have "clear_playlist ref_spotify ''p3'' ?w =
      Some (Inr (),
        \<lparr> log = [PlaylistItems ''p3'' 100 0, PlaylistRemoveAll ''p3'' [''spotify:track:7'']],
          remote = s' \<rparr>) \<and>
      items_of s' ''p3'' = [Item None, Item (Some (Track (Some [])))]"
    using u r c f by simp
  then show ?thesis by blast
qed

section \<open>The log only grows\<close>



lemma sleep_prefix: "prefix (log w) (log (sleep sp t w))"
  by (simp add: sleep_def)














section \<open>Run driver: target resolution\<close>






text \<open>
  C1. A run in reuse mode on the reference service, where no playlist of the library is
  named "Gym": the run ends with the not-found failure (exit code 1), after one remote
  write, the creation of the playlist "Imported", which the library holds afterwards.
\<close>

theorem main_reuse_not_found_creates:
  "map_option (\<lambda>y. (fst y, log (snd y), map rp_name (rs_library (remote (snd y)))))
     (main ascii_ops ex_env ex_fs id ref_spotify reuse_args \<lparr> log = [], remote = ex_state \<rparr>) =
   Some (Inl (SystemExit 1),
         [CurrentUser,
          UserPlaylistCreate ''me'' (Some ''Imported'') False ''Imported from Apple Music XML'',
          CurrentUser, CurrentUserPlaylists 50 0, Stderr (MsgPlaylistNotFound ''Gym'')],
         [Some ''Road Trip'', Some ''Local Files'', Some ''Mixed'', Some ''Imported''])"
  by code_simp

text \<open>
  C2. A run with neither \<open>--spotify-name\<close> nor \<open>--use-existing\<close>: on the reference service
  it ends with the usage error (exit code 1) after the creation of a playlist without a name,
  which the library holds afterwards; on a service that rejects a playlist without a name
  it ends with that service error, the creation call issued and no usage error reported.
\<close>

theorem main_neither_name_creates:
  "map_option (\<lambda>y. (fst y, log (snd y), map rp_name (rs_library (remote (snd y)))))
     (main ascii_ops ex_env ex_fs id ref_spotify bare_args \<lparr> log = [], remote = ex_state \<rparr>) =
   Some (Inl (SystemExit 1),
         [CurrentUser,
          UserPlaylistCreate ''me'' None False ''Imported from Apple Music XML'',
          Stderr MsgUsage],
         [Some ''Road Trip'', Some ''Local Files'', Some ''Mixed'', None]) \<and>
   map_option (\<lambda>y. (fst y, log (snd y)))
     (main ascii_ops ex_env ex_fs id strict_spotify bare_args \<lparr> log = [], remote = ex_state \<rparr>) =
   Some (Inl (SpotifyException 400 (Headers Absent)),
         [CurrentUser,
          UserPlaylistCreate ''me'' None False ''Imported from Apple Music XML''])"
  by code_simp

end
